theory Spec2Isabelle
  imports Main
begin

section \<open>Data model of extensionsDependencyChecker.ts\<close>

text \<open>
  The file under verification is the workbench contribution
  \<^verbatim>\<open>ExtensionDependencyChecker\<close>. Everything it talks to (extension service,
  extensions workbench service, configuration, notifications, window) is a host service
  injected through the constructor; the model passes those services as a record and lets
  every asynchronous function return the trace of service calls it makes together with
  the outcome of its promise.
\<close>

subsection \<open>Strings\<close>

text \<open>
  The checker does two things with a string: it compares it with another string (the keys
  of a \<^verbatim>\<open>Set<string>\<close>), and it calls \<^verbatim>\<open>toLowerCase()\<close> on it. A JavaScript
  string is a sequence of UTF-16 code units; here it is represented by a \<open>string\<close> that
  encodes that sequence injectively (its bytes in UTF-8), so that two strings are equal
  exactly when their representations are. \<^verbatim>\<open>String.prototype.toLowerCase\<close> is a
  built-in of the language with the case mapping of Unicode; it is not written out but
  taken as a parameter (a field of the record of host services below), so that the
  theorems hold for the mapping the engine implements, whatever it is.
\<close>

text \<open>\<^verbatim>\<open>localize(key, message)\<close> in the default language returns the message.\<close>

definition localize :: "string \<Rightarrow> string \<Rightarrow> string" where
  "localize key message = message"

subsection \<open>Extensions\<close>

text \<open>
  A running extension (\<^verbatim>\<open>IExtensionDescription\<close>): \<^verbatim>\<open>identifier.value\<close> and the
  optional \<^verbatim>\<open>extensionDependencies\<close> array (\<open>None\<close> is \<^verbatim>\<open>undefined\<close>).
\<close>

record IExtensionDescription =
  identifier_value :: string
  extensionDependencies :: "string list option"

text \<open>An \<^verbatim>\<open>IExtensionIdentifier\<close> \<^verbatim>\<open>{ id, uuid? }\<close>.\<close>

record IExtensionIdentifier =
  id' :: string
  uuid :: "string option"

text \<open>
  An \<^verbatim>\<open>IExtension\<close> of the extensions workbench service, as returned by
  \<^verbatim>\<open>queryLocal\<close> and in the pages of \<^verbatim>\<open>queryGallery\<close>; the checker reads only
  its \<^verbatim>\<open>identifier\<close>.
\<close>

record IExtension =
  identifier' :: IExtensionIdentifier

record IPager =
  firstPage :: "IExtension list"

subsection \<open>Errors, notifications, events\<close>

text \<open>
  A promise of a host service may reject with any reason; calling a method on
  \<^verbatim>\<open>undefined\<close> throws a \<^verbatim>\<open>TypeError\<close>.
\<close>

datatype error = Rejection string | TypeError string

datatype Severity = Ignore | Info | Warning | Error

text \<open>What an action's \<^verbatim>\<open>run\<close> callback calls when invoked.\<close>

datatype windowCall = reloadWindow

record Action =
  action_id :: string
  label :: string
  cssClass :: string
  enabled :: bool
  run :: "windowCall list"

record INotification =
  severity :: Severity
  message :: string
  actions_primary :: "Action list"

text \<open>
  The observable events of a run, in the order they happen: each call the checker makes on
  a host service, the settlement of each install promise it is awaiting, and a rejection
  that reaches no handler.
\<close>

datatype event =
    GetExtensions
  | QueryLocal
  | GetValue string
  | QueryGallery "string list" nat
  | Install IExtension
  | InstallResolved IExtension
  | InstallRejected IExtension error
  | Notify INotification
  | NotifyInfo string
  | UnhandledRejection error

subsection \<open>Host services\<close>

text \<open>
  The state of the injected services at the time of a run: what each promise settles
  with. An install promise also has the (logical) time at which it settles, which decides
  the order in which the promises of one batch settle. \<open>getValue\<close> is synchronous.
  \<^verbatim>\<open>areSameExtensions\<close> is imported from
  \<^verbatim>\<open>vs/platform/extensionManagement/common/extensionManagementUtil\<close>; its body is not
  part of the file under verification, so it is a parameter of the model as well, and so
  is the built-in \<^verbatim>\<open>toLowerCase\<close>.
\<close>

record host =
  getExtensions :: "error + IExtensionDescription list"
  queryLocal :: "error + IExtension list"
  queryGallery :: "string list \<Rightarrow> nat \<Rightarrow> error + IPager"
  install :: "IExtension \<Rightarrow> nat \<times> (error + unit)"
  getValue :: "string \<Rightarrow> bool"
  areSameExtensions :: "IExtensionIdentifier \<Rightarrow> IExtensionIdentifier \<Rightarrow> bool"
  toLowerCase :: "string \<Rightarrow> string"

subsection \<open>Async functions\<close>

text \<open>
  An \<^verbatim>\<open>async\<close> function is modelled by the events of its run and the outcome of the
  promise it returns: \<open>Inl\<close> a rejection, \<open>Inr\<close> the value.
\<close>

type_synonym 'a async = "event list \<times> (error + 'a)"

definition resolve :: "'a \<Rightarrow> 'a async" where
  "resolve x = ([], Inr x)"

text \<open>A synchronous computation that may throw, inside an async function.\<close>

definition sync :: "error + 'a \<Rightarrow> 'a async" where
  "sync r = ([], r)"

text \<open>Calling a service: the call is an event, the promise settles as the host says.\<close>

definition call :: "event \<Rightarrow> error + 'a \<Rightarrow> 'a async" where
  "call ev r = ([ev], r)"

text \<open>
  \<^verbatim>\<open>const x = await m; k(x)\<close>. There is no \<^verbatim>\<open>try\<close> in the file, so a rejection of
  \<open>m\<close> rejects the whole function and the continuation never runs.
\<close>

definition await :: "'a async \<Rightarrow> ('a \<Rightarrow> 'b async) \<Rightarrow> 'b async" where
  "await m k =
     (case m of
        (t, Inl e) \<Rightarrow> (t, Inl e)
      | (t, Inr x) \<Rightarrow> (case k x of (t', r) \<Rightarrow> (t @ t', r)))"

text \<open>
  Calling an async function without awaiting or returning its promise: the caller goes on
  whatever the outcome, and a rejection is unhandled.
\<close>

definition floating :: "'a async \<Rightarrow> unit async" where
  "floating m =
     (case m of
        (t, Inl e) \<Rightarrow> (t @ [UnhandledRejection e], Inr ())
      | (t, Inr x) \<Rightarrow> (t, Inr ()))"

subsection \<open>JavaScript sets and arrays\<close>

text \<open>
  A \<^verbatim>\<open>Set<string>\<close> keeps its elements in insertion order and compares strings
  exactly; \<^verbatim>\<open>values\<close> (from \<^verbatim>\<open>vs/base/common/map\<close>) lists them in that order.
\<close>

definition Set_add :: "'a \<Rightarrow> 'a list \<Rightarrow> 'a list" where
  "Set_add x s = (if x \<in> set s then s else s @ [x])"

definition Set_has :: "'a list \<Rightarrow> 'a \<Rightarrow> bool" where
  "Set_has s x = (x \<in> set s)"

definition values' :: "'a list \<Rightarrow> 'a list" where
  "values' s = s"

text \<open>
  \<^verbatim>\<open>a.forEach(f)\<close> where \<open>f\<close> updates a captured variable of type \<open>'s\<close>. On
  \<^verbatim>\<open>undefined\<close> the member access throws.
\<close>

fun forEach :: "'a list option \<Rightarrow> ('a \<Rightarrow> 's \<Rightarrow> 's) \<Rightarrow> 's \<Rightarrow> error + 's" where
  "forEach None f s = Inl (TypeError ''Cannot read property forEach of undefined'')"
| "forEach (Some xs) f s = Inr (foldl (\<lambda>acc x. f x acc) s xs)"

text \<open>The truthiness test \<^verbatim>\<open>if (a)\<close> on an optional array: every array is truthy.\<close>

definition truthy :: "'a option \<Rightarrow> bool" where
  "truthy a = (a \<noteq> None)"

section \<open>ExtensionDependencyChecker\<close>

subsection \<open>getAllMissingDependencies\<close>

text \<open>
  Line 50: the \<^verbatim>\<open>reduce\<close> that collects the lower-cased running identifiers;
  \<open>lower\<close> is \<^verbatim>\<open>toLowerCase\<close>.
\<close>

definition runningExtensionsIds ::
  "(string \<Rightarrow> string) \<Rightarrow> IExtensionDescription list \<Rightarrow> string list" where
  "runningExtensionsIds lower runningExtensions =
     foldl (\<lambda>result r. Set_add (lower (identifier_value r)) result) [] runningExtensions"

text \<open>Lines 52-60: the \<^verbatim>\<open>for ... of\<close> loop over the running extensions.\<close>

fun missingDependencies_loop ::
  "(string \<Rightarrow> string) \<Rightarrow> string list \<Rightarrow> IExtensionDescription list \<Rightarrow> string list \<Rightarrow>
     error + string list" where
  "missingDependencies_loop lower ids [] missingDependencies = Inr missingDependencies"
| "missingDependencies_loop lower ids (extension # rest) missingDependencies =
     (if truthy (extensionDependencies extension) then
        (case forEach (extensionDependencies extension)
                (\<lambda>dep m. if \<not> Set_has ids (lower dep) then Set_add dep m else m)
                missingDependencies of
           Inl e \<Rightarrow> Inl e
         | Inr m \<Rightarrow> missingDependencies_loop lower ids rest m)
      else missingDependencies_loop lower ids rest missingDependencies)"

definition getAllMissingDependencies :: "host \<Rightarrow> string list async" where
  "getAllMissingDependencies h =
     await (call GetExtensions (getExtensions h)) (\<lambda>runningExtensions.
     await (sync (missingDependencies_loop (toLowerCase h)
                    (runningExtensionsIds (toLowerCase h) runningExtensions)
                    runningExtensions [])) (\<lambda>missingDependencies.
     resolve (values' missingDependencies)))"

subsection \<open>getUninstalledMissingDependencies\<close>

definition getUninstalledMissingDependencies :: "host \<Rightarrow> string list async" where
  "getUninstalledMissingDependencies h =
     await (getAllMissingDependencies h) (\<lambda>allMissingDependencies.
     await (call QueryLocal (queryLocal h)) (\<lambda>localExtensions.
     resolve (filter (\<lambda>i. list_all (\<lambda>l. \<not> areSameExtensions h (identifier' l)
                                             \<lparr>id' = i, uuid = None\<rparr>) localExtensions)
                allMissingDependencies)))"

subsection \<open>installMissingDependencies\<close>

text \<open>
  Line 76. \<^verbatim>\<open>extensions.map(extension => install(extension))\<close> issues every install
  call, in order, before anything is awaited; each call returns a pending promise, kept
  here with its extension, its settle time and its outcome.
\<close>

definition issueInstalls ::
  "host \<Rightarrow> IExtension list \<Rightarrow> (IExtension \<times> nat \<times> (error + unit)) list async" where
  "issueInstalls h extensions =
     (map Install extensions, Inr (map (\<lambda>extension. (extension, install h extension)) extensions))"

text \<open>
  \<^verbatim>\<open>await Promise.all(promises)\<close>: the promises settle in the order of their settle
  times (promises with the same time in the order they were created). The combined promise
  resolves once every promise has resolved, and rejects with the reason of the first
  promise that rejects; the promises still pending then are left alone.
\<close>

fun settle :: "(IExtension \<times> nat \<times> (error + unit)) list \<Rightarrow> unit async" where
  "settle [] = ([], Inr ())"
| "settle ((extension, t, Inr u) # ps) =
     (case settle ps of (tr, r) \<Rightarrow> (InstallResolved extension # tr, r))"
| "settle ((extension, t, Inl e) # ps) = ([InstallRejected extension e], Inl e)"

definition Promise_all :: "(IExtension \<times> nat \<times> (error + unit)) list \<Rightarrow> unit async" where
  "Promise_all promises = settle (sort_key (\<lambda>p. fst (snd p)) promises)"

definition reloadAction :: Action where
  "reloadAction =
     \<lparr>action_id = ''realod'', label = localize ''reload'' ''Realod Window'', cssClass = [],
      enabled = True, run = [reloadWindow]\<rparr>"

definition finishedNotification :: INotification where
  "finishedNotification =
     \<lparr>severity = Info,
      message = localize ''finished installing missing deps''
        ''Finished installing missing dependencies. Please reload the window now.'',
      actions_primary = [reloadAction]\<rparr>"

definition noMissingDepsMessage :: string where
  "noMissingDepsMessage =
     localize ''no missing deps'' ''There are no missing dependencies to install.''"

definition installMissingDependencies :: "host \<Rightarrow> unit async" where
  "installMissingDependencies h =
     await (getUninstalledMissingDependencies h) (\<lambda>missingDependencies.
     if length missingDependencies \<noteq> 0 then
       await (call (QueryGallery missingDependencies (length missingDependencies))
                (queryGallery h missingDependencies (length missingDependencies))) (\<lambda>pager.
       let extensions = firstPage pager in
       if length extensions \<noteq> 0 then
         await (issueInstalls h extensions) (\<lambda>promises.
         await (Promise_all promises) (\<lambda>_.
         call (Notify finishedNotification) (Inr ())))
       else resolve ())
     else call (NotifyInfo noMissingDepsMessage) (Inr ()))"

subsection \<open>checkAndInstallMissingDependencies\<close>

definition autoInstallKey :: string where
  "autoInstallKey = ''extensions.autoInstallMissingDependencies''"

text \<open>
  Line 66: \<^verbatim>\<open>&&\<close> reads the configuration only when the list is not empty. Line 67
  calls \<^verbatim>\<open>installMissingDependencies\<close> without awaiting it.
\<close>

definition checkAndInstallMissingDependencies :: "host \<Rightarrow> unit async" where
  "checkAndInstallMissingDependencies h =
     await (getUninstalledMissingDependencies h) (\<lambda>missingDependencies.
     await (if length missingDependencies > 0
            then call (GetValue autoInstallKey) (Inr (getValue h autoInstallKey))
            else resolve False) (\<lambda>condition.
     if condition then floating (installMissingDependencies h) else resolve ()))"

subsection \<open>The contribution\<close>

text \<open>
  What the constructor leaves behind: the command and the command-palette entry it
  registers (lines 30-37) and the configuration listener (line 39), which
  \<^verbatim>\<open>_register\<close> ties to the disposal of the contribution. The command registration is
  not tied to it.
\<close>

definition installCommandId :: string where
  "installCommandId = ''workbench.extensions.installMissingDepenencies''"

record MenuItem =
  command_id :: string
  category :: string
  title :: string

record ExtensionDependencyChecker =
  commands :: "string list"
  menuItems :: "MenuItem list"
  configurationListener :: bool

subsection \<open>Runs while the services change\<close>

text \<open>
  An async function is suspended at each \<^verbatim>\<open>await\<close>, and meanwhile the services may
  change: other runs go on, the user changes a setting. So a run does not see one state of
  the services but one state at each moment it reads them. For
  \<^verbatim>\<open>getUninstalledMissingDependencies\<close> these are: when it is called (it calls
  \<^verbatim>\<open>getExtensions\<close> at once, and reads nothing), when the promise of
  \<^verbatim>\<open>getExtensions\<close> settles (lines 49-61 run then) and when the promise of
  \<^verbatim>\<open>queryLocal\<close> settles (line 45 runs then).
\<close>

record reads =
  atStart :: host
  atExtensions :: host
  atLocal :: host

text \<open>
  \<^verbatim>\<open>installMissingDependencies\<close> reads the services twice more: when the promise of
  \<^verbatim>\<open>queryGallery\<close> settles (line 74) and when the install promises do (line 76).
\<close>

record installReads = reads +
  atGallery :: host
  atInstalls :: host

text \<open>
  \<^verbatim>\<open>checkAndInstallMissingDependencies\<close> reads the configuration at line 66, after the
  awaits of line 65; \<open>started\<close> holds the moments of the run of
  \<^verbatim>\<open>installMissingDependencies\<close> that line 67 may start.
\<close>

record checkReads = reads +
  atFlag :: host
  started :: installReads

text \<open>
  The three async functions once more, each service read at its own moment. With the
  same state at every moment they are the functions above.
\<close>

definition getUninstalledMissingDependencies_live :: "'a reads_scheme \<Rightarrow> string list async" where
  "getUninstalledMissingDependencies_live m =
     await (getAllMissingDependencies (atExtensions m)) (\<lambda>allMissingDependencies.
     await (call QueryLocal (queryLocal (atLocal m))) (\<lambda>localExtensions.
     resolve (filter (\<lambda>i. list_all (\<lambda>l. \<not> areSameExtensions (atLocal m) (identifier' l)
                                             \<lparr>id' = i, uuid = None\<rparr>) localExtensions)
                allMissingDependencies)))"

definition installMissingDependencies_live :: "installReads \<Rightarrow> unit async" where
  "installMissingDependencies_live m =
     await (getUninstalledMissingDependencies_live m) (\<lambda>missingDependencies.
     if length missingDependencies \<noteq> 0 then
       await (call (QueryGallery missingDependencies (length missingDependencies))
                (queryGallery (atGallery m) missingDependencies (length missingDependencies)))
         (\<lambda>pager.
       let extensions = firstPage pager in
       if length extensions \<noteq> 0 then
         await (issueInstalls (atInstalls m) extensions) (\<lambda>promises.
         await (Promise_all promises) (\<lambda>_.
         call (Notify finishedNotification) (Inr ())))
       else resolve ())
     else call (NotifyInfo noMissingDepsMessage) (Inr ()))"

definition checkAndInstallMissingDependencies_live :: "checkReads \<Rightarrow> unit async" where
  "checkAndInstallMissingDependencies_live m =
     await (getUninstalledMissingDependencies_live m) (\<lambda>missingDependencies.
     await (if length missingDependencies > 0
            then call (GetValue autoInstallKey) (Inr (getValue (atFlag m) autoInstallKey))
            else resolve False) (\<lambda>condition.
     if condition then floating (installMissingDependencies_live (started m)) else resolve ()))"

definition frozenInstall :: "host \<Rightarrow> installReads" where
  "frozenInstall h =
     \<lparr>atStart = h, atExtensions = h, atLocal = h, atGallery = h, atInstalls = h\<rparr>"

definition frozenCheck :: "host \<Rightarrow> checkReads" where
  "frozenCheck h =
     \<lparr>atStart = h, atExtensions = h, atLocal = h, atFlag = h, started = frozenInstall h\<rparr>"

subsection \<open>The life of the contribution\<close>

text \<open>
  Line 38 calls \<^verbatim>\<open>checkAndInstallMissingDependencies\<close> without awaiting it, and so
  does the listener of line 39. The constructor returns what it has registered and the run
  of the check it has started.
\<close>

definition constructor :: "checkReads \<Rightarrow> ExtensionDependencyChecker \<times> event list" where
  "constructor m =
     (\<lparr>commands = [installCommandId],
       menuItems = [\<lparr>command_id = installCommandId,
                     category = localize ''extensions'' ''Extensions'',
                     title = localize ''auto install missing deps''
                               ''Install Missing Dependencies''\<rparr>],
       configurationListener = True\<rparr>,
      fst (floating (checkAndInstallMissingDependencies_live m)))"

text \<open>
  What can happen to a constructed contribution: a command is executed, the configuration
  changes (the event answers \<^verbatim>\<open>affectsConfiguration(key)\<close>), the contribution is
  disposed. The first two come with the moments of the run they may start.
\<close>

datatype input =
    ExecuteCommand string installReads
  | DidChangeConfiguration "string \<Rightarrow> bool" checkReads
  | Dispose

text \<open>The run an input starts: its own events, in their order.\<close>

fun react ::
  "ExtensionDependencyChecker \<Rightarrow> input \<Rightarrow> ExtensionDependencyChecker \<times> event list" where
  "react c (ExecuteCommand cid m) =
     (c, if cid \<in> set (commands c) then fst (installMissingDependencies_live m) else [])"
| "react c (DidChangeConfiguration affectsConfiguration m) =
     (c, if configurationListener c \<and> affectsConfiguration autoInstallKey
         then fst (floating (checkAndInstallMissingDependencies_live m)) else [])"
| "react c Dispose = (c\<lparr>configurationListener := False\<rparr>, [])"

fun runs :: "ExtensionDependencyChecker \<Rightarrow> input list \<Rightarrow> event list list" where
  "runs c [] = []"
| "runs c (i # inputs) = (case react c i of (c', t) \<Rightarrow> t # runs c' inputs)"

text \<open>All runs of a life: the check of the constructor, then one run for each input.\<close>

definition allRuns :: "checkReads \<Rightarrow> input list \<Rightarrow> event list list" where
  "allRuns m inputs = (case constructor m of (c, t) \<Rightarrow> t # runs c inputs)"

text \<open>
  The runs overlap: whenever one is suspended, any other may go on. An execution trace is
  an interleaving of the runs, that is, it takes the next event of any run, again and
  again, until all runs are used up. (Not every interleaving can happen, since a run
  cannot begin before its input; every trace that can happen is an interleaving.)
\<close>

inductive interleaving :: "'a list list \<Rightarrow> 'a list \<Rightarrow> bool" where
  finished: "list_all (\<lambda>r. r = []) rs \<Longrightarrow> interleaving rs []"
| next_event: "i < length rs \<Longrightarrow> rs ! i = x # rest \<Longrightarrow> interleaving (rs[i := rest]) t \<Longrightarrow>
     interleaving rs (x # t)"

subsection \<open>Reading a trace\<close>

fun isNotification :: "event \<Rightarrow> bool" where
  "isNotification (Notify n) = True"
| "isNotification (NotifyInfo m) = True"
| "isNotification ev = False"

fun isGalleryQuery :: "event \<Rightarrow> bool" where
  "isGalleryQuery (QueryGallery names pageSize) = True"
| "isGalleryQuery ev = False"

fun isInstall :: "event \<Rightarrow> bool" where
  "isInstall (Install extension) = True"
| "isInstall ev = False"

text \<open>The events that are not calls of the checker but settlements of promises.\<close>

fun isSettlement :: "event \<Rightarrow> bool" where
  "isSettlement (InstallResolved extension) = True"
| "isSettlement (InstallRejected extension e) = True"
| "isSettlement (UnhandledRejection e) = True"
| "isSettlement ev = False"

definition notifications :: "event list \<Rightarrow> event list" where
  "notifications t = filter isNotification t"

text \<open>The calls the checker itself makes, in order.\<close>

definition calls :: "event list \<Rightarrow> event list" where
  "calls t = filter (\<lambda>ev. \<not> isSettlement ev) t"

text \<open>
  Proof vocabulary: every dependency the running extensions declare, in the order the
  loop of lines 52-60 visits them.
\<close>

definition declared :: "IExtensionDescription list \<Rightarrow> string list" where
  "declared running =
     concat (map (\<lambda>extension. case extensionDependencies extension of
                                 None \<Rightarrow> [] | Some deps \<Rightarrow> deps) running)"

subsection \<open>Example hosts\<close>

definition extensionWithId :: "string \<Rightarrow> IExtension" where
  "extensionWithId n = \<lparr>identifier' = \<lparr>id' = n, uuid = None\<rparr>\<rparr>"

text \<open>
  The identifiers of the examples are ASCII strings, on which \<^verbatim>\<open>toLowerCase\<close> maps
  the letters \<open>A\<close> to \<open>Z\<close> to \<open>a\<close> to \<open>z\<close> and leaves every other character.
\<close>

definition asciiToLowerCase_char :: "char \<Rightarrow> char" where
  "asciiToLowerCase_char c =
     (case map_of (zip ''ABCDEFGHIJKLMNOPQRSTUVWXYZ'' ''abcdefghijklmnopqrstuvwxyz'') c of
        Some l \<Rightarrow> l
      | None \<Rightarrow> c)"

definition asciiToLowerCase :: "string \<Rightarrow> string" where
  "asciiToLowerCase s = map asciiToLowerCase_char s"

text \<open>An identity comparison for the examples: the ids agree up to letter case.\<close>

definition sameIdIgnoringCase :: "IExtensionIdentifier \<Rightarrow> IExtensionIdentifier \<Rightarrow> bool" where
  "sameIdIgnoringCase a b = (asciiToLowerCase (id' a) = asciiToLowerCase (id' b))"

text \<open>
  The example of the specification: one running extension \<open>A\<close> that depends on \<open>B\<close>,
  nothing installed, the gallery answers with one descriptor, the install succeeds.
\<close>

definition exampleHost :: host where
  "exampleHost =
     \<lparr>getExtensions = Inr [\<lparr>identifier_value = ''A'', extensionDependencies = Some [''B'']\<rparr>],
      queryLocal = Inr [],
      queryGallery = (\<lambda>names pageSize. Inr \<lparr>firstPage = [extensionWithId ''B'']\<rparr>),
      install = (\<lambda>extension. (1, Inr ())),
      getValue = (\<lambda>key. True),
      areSameExtensions = sameIdIgnoringCase,
      toLowerCase = asciiToLowerCase\<rparr>"

text \<open>
  A larger one: \<open>Pub.A\<close> declares \<open>Pub.B\<close> under two spellings and twice, its own
  identifier in lower case, and \<open>x.c\<close>, which is installed but not running; \<open>pub.z\<close>
  has no \<^verbatim>\<open>extensionDependencies\<close>. The gallery answers with one descriptor per name;
  the install of \<open>pub.b\<close> settles first.
\<close>

definition busyHost :: host where
  "busyHost =
     \<lparr>getExtensions = Inr
        [\<lparr>identifier_value = ''Pub.A'',
          extensionDependencies = Some [''Pub.B'', ''pub.b'', ''pub.a'', ''Pub.B'', ''x.c'']\<rparr>,
         \<lparr>identifier_value = ''pub.z'', extensionDependencies = None\<rparr>],
      queryLocal = Inr [extensionWithId ''X.C''],
      queryGallery = (\<lambda>names pageSize. Inr \<lparr>firstPage = map extensionWithId (take pageSize names)\<rparr>),
      install = (\<lambda>extension. if id' (identifier' extension) = ''pub.b''
                              then (1, Inr ()) else (2, Inr ())),
      getValue = (\<lambda>key. True),
      areSameExtensions = sameIdIgnoringCase,
      toLowerCase = asciiToLowerCase\<rparr>"

text \<open>One extension that declares the same dependency under two spellings.\<close>

definition twoSpellingsHost :: host where
  "twoSpellingsHost =
     exampleHost\<lparr>getExtensions := Inr
        [\<lparr>identifier_value = ''A'', extensionDependencies = Some [''Pub.B'', ''pub.b'']\<rparr>]\<rparr>"

text \<open>
  Variations of the example of the specification: the dependency is installed already; the
  gallery finds nothing; automatic installation is switched off.
\<close>

definition nothingMissingHost :: host where
  "nothingMissingHost = exampleHost\<lparr>queryLocal := Inr [extensionWithId ''b'']\<rparr>"

definition emptyGalleryHost :: host where
  "emptyGalleryHost = exampleHost\<lparr>queryGallery := (\<lambda>names pageSize. Inr \<lparr>firstPage = []\<rparr>)\<rparr>"

definition flagOffHost :: host where
  "flagOffHost = exampleHost\<lparr>getValue := (\<lambda>key. False)\<rparr>"

text \<open>
  The larger host with an install that fails: the install of \<open>pub.b\<close> rejects at time 1,
  while the install of \<open>Pub.B\<close> is still pending.
\<close>

definition failingInstallHost :: host where
  "failingInstallHost =
     busyHost\<lparr>install := (\<lambda>extension. if id' (identifier' extension) = ''pub.b''
                                        then (1, Inl (Rejection ''install failed''))
                                        else (2, Inr ()))\<rparr>"

text \<open>
  A check whose awaits of line 65 see the setting switched off, and whose line 66 sees it
  switched on.
\<close>

definition lateFlagReads :: checkReads where
  "lateFlagReads =
     \<lparr>atStart = flagOffHost, atExtensions = flagOffHost, atLocal = flagOffHost,
      atFlag = exampleHost, started = frozenInstall exampleHost\<rparr>"

text \<open>A configuration change that affects every key.\<close>

definition anyKey :: "string \<Rightarrow> bool" where
  "anyKey key = True"

section \<open>Properties\<close>

subsection \<open>Auxiliary facts\<close>

lemma await_simps:
  "await (t, Inl e) k = (t, Inl e)"
  "await (t, Inr x) k = (t @ fst (k x), snd (k x))"
  by (simp_all add: await_def split: prod.splits)

lemma forEach_truthy:
  "truthy a \<Longrightarrow> forEach a f s = Inr (foldl (\<lambda>acc x. f x acc) s (the a))"
  by (cases a) (simp_all add: truthy_def)

lemma missingDependencies_loop_foldl:
  "missingDependencies_loop lower ids running acc =
     Inr (foldl (\<lambda>m dep. if \<not> Set_has ids (lower dep) then Set_add dep m else m)
            acc (declared running))"
proof (induction running arbitrary: acc)
  case Nil
  show ?case by (simp add: declared_def)
next
  case (Cons extension rest)
  show ?case
  proof (cases "extensionDependencies extension")
    case None
    then show ?thesis using Cons.IH [of acc] by (simp add: truthy_def declared_def)
  next
    case (Some deps)
    then show ?thesis
      using Cons.IH [of "foldl (\<lambda>m dep. if \<not> Set_has ids (lower dep) then Set_add dep m else m) acc deps"]
      by (simp add: truthy_def declared_def)
  qed
qed

lemma set_collect:
  "set (foldl (\<lambda>m dep. if \<not> Set_has ids (lower dep) then Set_add dep m else m) acc deps) =
     set acc \<union> {dep \<in> set deps. lower dep \<notin> set ids}"
  by (induction deps arbitrary: acc) (auto simp: Set_has_def Set_add_def)

lemma distinct_collect:
  "distinct acc \<Longrightarrow>
   distinct (foldl (\<lambda>m dep. if \<not> Set_has ids (lower dep) then Set_add dep m else m) acc deps)"
  by (induction deps arbitrary: acc) (auto simp: Set_has_def Set_add_def)

lemma set_foldl_ids:
  "set (foldl (\<lambda>result r. Set_add (lower (identifier_value r)) result) acc running) =
     set acc \<union> (\<lambda>r. lower (identifier_value r)) ` set running"
  by (induction running arbitrary: acc) (auto simp: Set_add_def)

lemma set_runningExtensionsIds:
  "set (runningExtensionsIds lower running) = (\<lambda>r. lower (identifier_value r)) ` set running"
  by (simp add: runningExtensionsIds_def set_foldl_ids)

lemma set_declared:
  "set (declared running) =
     {dep. \<exists>extension \<in> set running. \<exists>deps. extensionDependencies extension = Some deps \<and> dep \<in> set deps}"
  by (auto simp: declared_def split: option.splits) metis

lemma getAllMissingDependencies_eq:
  "getExtensions h = Inr running \<Longrightarrow>
   getAllMissingDependencies h =
     ([GetExtensions],
      Inr (foldl (\<lambda>m dep. if \<not> Set_has (runningExtensionsIds (toLowerCase h) running) (toLowerCase h dep)
                           then Set_add dep m else m) [] (declared running)))"
  by (simp add: getAllMissingDependencies_def call_def sync_def resolve_def values'_def
      await_simps missingDependencies_loop_foldl)

lemma getAllMissingDependencies_rejected:
  "getExtensions h = Inl e \<Longrightarrow> getAllMissingDependencies h = ([GetExtensions], Inl e)"
  by (simp add: getAllMissingDependencies_def call_def await_simps)

lemma busyHost_lower: "toLowerCase busyHost = asciiToLowerCase"
  by (simp add: busyHost_def)

lemma exampleHost_lower: "toLowerCase exampleHost = asciiToLowerCase"
  by (simp add: exampleHost_def)

subsection \<open>The missing dependencies\<close>

text \<open>
  Claim C1. For every list of running extensions, \<open>getAllMissingDependencies\<close> returns
  exactly the set of dependency identifiers that some running extension declares and whose
  lower-cased form is not the identifier of any running extension; an identifier whose
  lower-cased form matches a running extension's identifier is never included. Extension
  identifiers are case-insensitive: the identifier of the running extension is compared
  in its lower-cased form too (line 50). The statement holds whatever
  \<^verbatim>\<open>toLowerCase\<close> computes.
\<close>

theorem getAllMissingDependencies_exact:
  assumes "getExtensions h = Inr running"
  shows "\<exists>missing. getAllMissingDependencies h = ([GetExtensions], Inr missing) \<and>
     set missing =
       {dep. (\<exists>extension \<in> set running. \<exists>deps.
                extensionDependencies extension = Some deps \<and> dep \<in> set deps) \<and>
             \<not> (\<exists>r \<in> set running. toLowerCase h dep = toLowerCase h (identifier_value r))} \<and>
     (\<forall>dep r. r \<in> set running \<and> toLowerCase h dep = toLowerCase h (identifier_value r)
         \<longrightarrow> dep \<notin> set missing)"
proof -
  let ?missing = "foldl (\<lambda>m dep. if \<not> Set_has (runningExtensionsIds (toLowerCase h) running) (toLowerCase h dep)
                           then Set_add dep m else m) [] (declared running)"
  have run: "getAllMissingDependencies h = ([GetExtensions], Inr ?missing)"
    using assms by (rule getAllMissingDependencies_eq)
  have exact: "set ?missing =
       {dep. (\<exists>extension \<in> set running. \<exists>deps.
                extensionDependencies extension = Some deps \<and> dep \<in> set deps) \<and>
             \<not> (\<exists>r \<in> set running. toLowerCase h dep = toLowerCase h (identifier_value r))}"
    by (auto simp: set_collect set_runningExtensionsIds set_declared)
  have never: "dep \<notin> set ?missing"
    if "r \<in> set running" and "toLowerCase h dep = toLowerCase h (identifier_value r)"
    for dep r
    using that unfolding exact by blast
  show ?thesis using run exact never by blast
qed

theorem getAllMissingDependencies_exact_witness:
  "getExtensions busyHost = Inr
     [\<lparr>identifier_value = ''Pub.A'',
       extensionDependencies = Some [''Pub.B'', ''pub.b'', ''pub.a'', ''Pub.B'', ''x.c'']\<rparr>,
      \<lparr>identifier_value = ''pub.z'', extensionDependencies = None\<rparr>] \<and>
   (\<exists>missing. getAllMissingDependencies busyHost = ([GetExtensions], Inr missing) \<and>
      set missing = {''Pub.B'', ''pub.b'', ''x.c''})"
proof -
  have running: "getExtensions busyHost = Inr
     [\<lparr>identifier_value = ''Pub.A'',
       extensionDependencies = Some [''Pub.B'', ''pub.b'', ''pub.a'', ''Pub.B'', ''x.c'']\<rparr>,
      \<lparr>identifier_value = ''pub.z'', extensionDependencies = None\<rparr>]"
    by (simp add: busyHost_def)
  from getAllMissingDependencies_exact [OF running] obtain missing where
    run: "getAllMissingDependencies busyHost = ([GetExtensions], Inr missing)"
    by blast
  have "getAllMissingDependencies busyHost = ([GetExtensions], Inr [''Pub.B'', ''pub.b'', ''x.c''])"
    by (simp add: getAllMissingDependencies_eq [OF running] busyHost_lower
        runningExtensionsIds_def declared_def Set_has_def Set_add_def
        asciiToLowerCase_def asciiToLowerCase_char_def)
  then have "set missing = {''Pub.B'', ''pub.b'', ''x.c''}"
    using run by auto
  then show ?thesis using running run by blast
qed

lemma declared_filter:
  "declared (filter (\<lambda>extension. extensionDependencies extension \<noteq> None) running) = declared running"
  by (induction running) (auto simp: declared_def)

lemma count_list_distinct:
  "distinct xs \<Longrightarrow> count_list xs x = (if x \<in> set xs then 1 else 0)"
  by (induction xs) auto

text \<open>
  Claim C5, as stated: when the same missing dependency occurs more than once, also in
  occurrences that differ only in letter case, it is returned exactly once, in the casing
  of its first occurrence. The set of line 51 holds the dependencies as written and
  compares them exactly, so two spellings of one identifier are both returned.
\<close>

theorem getAllMissingDependencies_two_spellings:
  "toLowerCase twoSpellingsHost ''Pub.B'' = toLowerCase twoSpellingsHost ''pub.b'' \<and>
   getAllMissingDependencies twoSpellingsHost = ([GetExtensions], Inr [''Pub.B'', ''pub.b''])"
  by (simp add: twoSpellingsHost_def exampleHost_def getAllMissingDependencies_eq
      runningExtensionsIds_def declared_def Set_has_def Set_add_def asciiToLowerCase_def
      asciiToLowerCase_char_def)

text \<open>
  Claim C5, amended: every missing dependency is returned exactly once per spelling: an
  identifier that occurs several times as the same string is returned once, and
  occurrences that differ in letter case are different strings, each returned once as
  written. Nothing else is returned.
\<close>

theorem getAllMissingDependencies_once:
  assumes "getExtensions h = Inr running"
  shows "\<exists>missing. getAllMissingDependencies h = ([GetExtensions], Inr missing) \<and>
     distinct missing \<and>
     (\<forall>dep. count_list missing dep =
        (if (\<exists>extension \<in> set running. \<exists>deps.
               extensionDependencies extension = Some deps \<and> dep \<in> set deps) \<and>
            \<not> (\<exists>r \<in> set running. toLowerCase h dep = toLowerCase h (identifier_value r))
         then 1 else 0))"
proof -
  let ?missing = "foldl (\<lambda>m dep. if \<not> Set_has (runningExtensionsIds (toLowerCase h) running) (toLowerCase h dep)
                           then Set_add dep m else m) [] (declared running)"
  have run: "getAllMissingDependencies h = ([GetExtensions], Inr ?missing)"
    using assms by (rule getAllMissingDependencies_eq)
  have dist: "distinct ?missing"
    by (rule distinct_collect) simp
  have mem: "dep \<in> set ?missing \<longleftrightarrow>
       (\<exists>extension \<in> set running. \<exists>deps.
               extensionDependencies extension = Some deps \<and> dep \<in> set deps) \<and>
            \<not> (\<exists>r \<in> set running. toLowerCase h dep = toLowerCase h (identifier_value r))" for dep
    by (auto simp: set_collect set_runningExtensionsIds set_declared)
  have "count_list ?missing dep = (if dep \<in> set ?missing then 1 else 0)" for dep
    using dist by (rule count_list_distinct)
  then show ?thesis using run dist mem by auto
qed

theorem getAllMissingDependencies_once_witness:
  "getExtensions busyHost = Inr
     [\<lparr>identifier_value = ''Pub.A'',
       extensionDependencies = Some [''Pub.B'', ''pub.b'', ''pub.a'', ''Pub.B'', ''x.c'']\<rparr>,
      \<lparr>identifier_value = ''pub.z'', extensionDependencies = None\<rparr>] \<and>
   (\<exists>missing. getAllMissingDependencies busyHost = ([GetExtensions], Inr missing) \<and>
      count_list missing ''Pub.B'' = 1 \<and> count_list missing ''pub.b'' = 1 \<and>
      count_list missing ''x.c'' = 1 \<and> count_list missing ''pub.a'' = 0)"
proof -
  let ?running = "[\<lparr>identifier_value = ''Pub.A'',
       extensionDependencies = Some [''Pub.B'', ''pub.b'', ''pub.a'', ''Pub.B'', ''x.c'']\<rparr>,
      \<lparr>identifier_value = ''pub.z'', extensionDependencies = None\<rparr>]"
  have running: "getExtensions busyHost = Inr ?running"
    by (simp add: busyHost_def)
  from getAllMissingDependencies_once [OF running] obtain missing where
    run: "getAllMissingDependencies busyHost = ([GetExtensions], Inr missing)" and
    count: "\<And>dep. count_list missing dep =
        (if (\<exists>extension \<in> set ?running. \<exists>deps.
               extensionDependencies extension = Some deps \<and> dep \<in> set deps) \<and>
            \<not> (\<exists>r \<in> set ?running.
                  toLowerCase busyHost dep = toLowerCase busyHost (identifier_value r))
         then 1 else 0)"
    by blast
  have "count_list missing ''Pub.B'' = 1" "count_list missing ''pub.b'' = 1"
    "count_list missing ''x.c'' = 1" "count_list missing ''pub.a'' = 0"
    by (simp_all add: count busyHost_lower asciiToLowerCase_def asciiToLowerCase_char_def)
  then show ?thesis using running run by blast
qed

text \<open>
  Claim C9. For every list of running extensions, also one with extensions whose
  \<^verbatim>\<open>extensionDependencies\<close> is undefined, \<open>getAllMissingDependencies\<close> returns
  normally: the loop ends in \<open>Inr\<close>, never in the \<open>TypeError\<close> of a \<^verbatim>\<open>forEach\<close> on
  \<^verbatim>\<open>undefined\<close>. An extension without the field contributes nothing: the loop gives
  the same result with those extensions left out, and every identifier returned comes from
  the array of an extension that has one.
\<close>

theorem getAllMissingDependencies_undefined_dependencies:
  assumes "getExtensions h = Inr running"
  shows "\<exists>missing. getAllMissingDependencies h = ([GetExtensions], Inr missing) \<and>
     missingDependencies_loop (toLowerCase h) (runningExtensionsIds (toLowerCase h) running) running [] = Inr missing \<and>
     missingDependencies_loop (toLowerCase h) (runningExtensionsIds (toLowerCase h) running)
       (filter (\<lambda>extension. extensionDependencies extension \<noteq> None) running) [] = Inr missing \<and>
     (\<forall>dep \<in> set missing. \<exists>extension \<in> set running. \<exists>deps.
         extensionDependencies extension = Some deps \<and> dep \<in> set deps)"
proof -
  let ?missing = "foldl (\<lambda>m dep. if \<not> Set_has (runningExtensionsIds (toLowerCase h) running) (toLowerCase h dep)
                           then Set_add dep m else m) [] (declared running)"
  have run: "getAllMissingDependencies h = ([GetExtensions], Inr ?missing)"
    using assms by (rule getAllMissingDependencies_eq)
  have loop: "missingDependencies_loop (toLowerCase h) (runningExtensionsIds (toLowerCase h) running) running [] = Inr ?missing"
    by (rule missingDependencies_loop_foldl)
  have skip: "missingDependencies_loop (toLowerCase h) (runningExtensionsIds (toLowerCase h) running)
       (filter (\<lambda>extension. extensionDependencies extension \<noteq> None) running) [] = Inr ?missing"
    by (simp only: missingDependencies_loop_foldl declared_filter)
  have "set ?missing \<subseteq> set (declared running)"
    by (auto simp: set_collect)
  then have sound: "\<forall>dep \<in> set ?missing. \<exists>extension \<in> set running. \<exists>deps.
         extensionDependencies extension = Some deps \<and> dep \<in> set deps"
    unfolding set_declared by blast
  show ?thesis using run loop skip sound by blast
qed

theorem getAllMissingDependencies_undefined_dependencies_witness:
  "getExtensions busyHost = Inr
     [\<lparr>identifier_value = ''Pub.A'',
       extensionDependencies = Some [''Pub.B'', ''pub.b'', ''pub.a'', ''Pub.B'', ''x.c'']\<rparr>,
      \<lparr>identifier_value = ''pub.z'', extensionDependencies = None\<rparr>] \<and>
   getAllMissingDependencies busyHost = ([GetExtensions], Inr [''Pub.B'', ''pub.b'', ''x.c'']) \<and>
   missingDependencies_loop asciiToLowerCase [''pub.a'', ''pub.z'']
     [\<lparr>identifier_value = ''Pub.A'',
       extensionDependencies = Some [''Pub.B'', ''pub.b'', ''pub.a'', ''Pub.B'', ''x.c'']\<rparr>] [] =
     Inr [''Pub.B'', ''pub.b'', ''x.c'']"
proof -
  have running: "getExtensions busyHost = Inr
     [\<lparr>identifier_value = ''Pub.A'',
       extensionDependencies = Some [''Pub.B'', ''pub.b'', ''pub.a'', ''Pub.B'', ''x.c'']\<rparr>,
      \<lparr>identifier_value = ''pub.z'', extensionDependencies = None\<rparr>]"
    by (simp add: busyHost_def)
  have ids: "runningExtensionsIds asciiToLowerCase
     [\<lparr>identifier_value = ''Pub.A'',
       extensionDependencies = Some [''Pub.B'', ''pub.b'', ''pub.a'', ''Pub.B'', ''x.c'']\<rparr>,
      \<lparr>identifier_value = ''pub.z'', extensionDependencies = None\<rparr>] = [''pub.a'', ''pub.z'']"
    by (simp add: runningExtensionsIds_def Set_add_def asciiToLowerCase_def asciiToLowerCase_char_def)
  have run: "getAllMissingDependencies busyHost = ([GetExtensions], Inr [''Pub.B'', ''pub.b'', ''x.c''])"
    by (simp add: getAllMissingDependencies_eq [OF running] ids busyHost_lower
        declared_def Set_has_def Set_add_def asciiToLowerCase_def asciiToLowerCase_char_def)
  show ?thesis
    using getAllMissingDependencies_undefined_dependencies [OF running] running run
    by (simp add: ids busyHost_lower)
qed

subsection \<open>The uninstalled missing dependencies\<close>

lemma getUninstalledMissingDependencies_eq:
  assumes "getAllMissingDependencies h = (t, Inr allMissing)" and "queryLocal h = Inr localExtensions"
  shows "getUninstalledMissingDependencies h =
     (t @ [QueryLocal],
      Inr (filter (\<lambda>i. list_all (\<lambda>l. \<not> areSameExtensions h (identifier' l)
                                        \<lparr>id' = i, uuid = None\<rparr>) localExtensions) allMissing))"
  using assms
  by (simp add: getUninstalledMissingDependencies_def call_def resolve_def await_simps)

lemma getUninstalledMissingDependencies_cases:
  "(\<exists>e. getUninstalledMissingDependencies h = ([GetExtensions], Inl e)) \<or>
   (\<exists>e. getUninstalledMissingDependencies h = ([GetExtensions, QueryLocal], Inl e)) \<or>
   (\<exists>m. getUninstalledMissingDependencies h = ([GetExtensions, QueryLocal], Inr m))"
proof (cases "getExtensions h")
  case (Inl e)
  then show ?thesis
    by (simp add: getUninstalledMissingDependencies_def getAllMissingDependencies_rejected await_simps)
next
  case (Inr running)
  show ?thesis
  proof (cases "queryLocal h")
    case (Inl e)
    then show ?thesis
      by (simp add: getUninstalledMissingDependencies_def getAllMissingDependencies_eq [OF Inr]
          call_def await_simps)
  next
    case locals: (Inr localExtensions)
    show ?thesis
      using getUninstalledMissingDependencies_eq [OF getAllMissingDependencies_eq [OF Inr] locals]
      by simp
  qed
qed

lemma getUninstalledMissingDependencies_resolved:
  "snd (getUninstalledMissingDependencies h) = Inr m \<Longrightarrow>
   getUninstalledMissingDependencies h = ([GetExtensions, QueryLocal], Inr m)"
  using getUninstalledMissingDependencies_cases [of h] by auto

lemma getUninstalledMissingDependencies_rejected:
  "snd (getUninstalledMissingDependencies h) = Inl e \<Longrightarrow>
   getUninstalledMissingDependencies h = ([GetExtensions], Inl e) \<or>
   getUninstalledMissingDependencies h = ([GetExtensions, QueryLocal], Inl e)"
  using getUninstalledMissingDependencies_cases [of h] by auto

text \<open>
  Claim C4. For every state of the services, every identifier returned by
  \<open>getUninstalledMissingDependencies\<close> is also returned by \<open>getAllMissingDependencies\<close>,
  and the identifiers removed are exactly those that some locally installed extension
  matches under \<^verbatim>\<open>areSameExtensions\<close>, whatever that comparison is. The order of the
  remaining identifiers is kept.
\<close>

theorem getUninstalledMissingDependencies_filter:
  assumes "snd (getAllMissingDependencies h) = Inr allMissing"
    and "queryLocal h = Inr localExtensions"
  shows "\<exists>uninstalled. snd (getUninstalledMissingDependencies h) = Inr uninstalled \<and>
     set uninstalled \<subseteq> set allMissing \<and>
     (\<forall>i \<in> set allMissing. i \<notin> set uninstalled \<longleftrightarrow>
        (\<exists>l \<in> set localExtensions.
           areSameExtensions h (identifier' l) \<lparr>id' = i, uuid = None\<rparr>)) \<and>
     uninstalled = filter (\<lambda>i. i \<in> set uninstalled) allMissing"
proof -
  let ?keep = "\<lambda>i. list_all (\<lambda>l. \<not> areSameExtensions h (identifier' l)
                                        \<lparr>id' = i, uuid = None\<rparr>) localExtensions"
  obtain t where "getAllMissingDependencies h = (t, Inr allMissing)"
    using assms(1) by (cases "getAllMissingDependencies h") simp
  then have run: "snd (getUninstalledMissingDependencies h) = Inr (filter ?keep allMissing)"
    using getUninstalledMissingDependencies_eq [OF _ assms(2)] by simp
  have removed: "\<forall>i \<in> set allMissing. i \<notin> set (filter ?keep allMissing) \<longleftrightarrow>
        (\<exists>l \<in> set localExtensions.
           areSameExtensions h (identifier' l) \<lparr>id' = i, uuid = None\<rparr>)"
    by (auto simp: list_all_iff)
  have order: "filter ?keep allMissing = filter (\<lambda>i. i \<in> set (filter ?keep allMissing)) allMissing"
    by (rule filter_cong) auto
  show ?thesis using run removed order by (intro exI [of _ "filter ?keep allMissing"]) auto
qed

theorem getUninstalledMissingDependencies_filter_witness:
  "snd (getAllMissingDependencies busyHost) = Inr [''Pub.B'', ''pub.b'', ''x.c''] \<and>
   queryLocal busyHost = Inr [extensionWithId ''X.C''] \<and>
   snd (getUninstalledMissingDependencies busyHost) = Inr [''Pub.B'', ''pub.b''] \<and>
   areSameExtensions busyHost (identifier' (extensionWithId ''X.C'')) \<lparr>id' = ''x.c'', uuid = None\<rparr>"
proof -
  have all: "snd (getAllMissingDependencies busyHost) = Inr [''Pub.B'', ''pub.b'', ''x.c'']"
    by (simp add: busyHost_def getAllMissingDependencies_eq runningExtensionsIds_def
        declared_def Set_has_def Set_add_def asciiToLowerCase_def asciiToLowerCase_char_def)
  have locals: "queryLocal busyHost = Inr [extensionWithId ''X.C'']"
    by (simp add: busyHost_def)
  have same:
    "\<not> areSameExtensions busyHost (identifier' (extensionWithId ''X.C'')) \<lparr>id' = ''Pub.B'', uuid = None\<rparr>"
    "\<not> areSameExtensions busyHost (identifier' (extensionWithId ''X.C'')) \<lparr>id' = ''pub.b'', uuid = None\<rparr>"
    "areSameExtensions busyHost (identifier' (extensionWithId ''X.C'')) \<lparr>id' = ''x.c'', uuid = None\<rparr>"
    by (simp_all add: busyHost_def extensionWithId_def sameIdIgnoringCase_def asciiToLowerCase_def
        asciiToLowerCase_char_def)
  from getUninstalledMissingDependencies_filter [OF all locals] obtain uninstalled where
    run: "snd (getUninstalledMissingDependencies busyHost) = Inr uninstalled" and
    removed: "\<forall>i \<in> set [''Pub.B'', ''pub.b'', ''x.c'']. i \<notin> set uninstalled \<longleftrightarrow>
        (\<exists>l \<in> set [extensionWithId ''X.C''].
           areSameExtensions busyHost (identifier' l) \<lparr>id' = i, uuid = None\<rparr>)" and
    order: "uninstalled = filter (\<lambda>i. i \<in> set uninstalled) [''Pub.B'', ''pub.b'', ''x.c'']"
    by blast
  have "''Pub.B'' \<in> set uninstalled" "''pub.b'' \<in> set uninstalled" "''x.c'' \<notin> set uninstalled"
    using removed same by simp_all
  then have "uninstalled = [''Pub.B'', ''pub.b'']"
    using order by simp
  then show ?thesis using all locals run same(3) by simp
qed

subsection \<open>Installing\<close>

lemma insort_key_promises:
  "insort_key (\<lambda>p. fst (snd p)) (x, g x) (map (\<lambda>e. (e, g e)) xs) =
     map (\<lambda>e. (e, g e)) (insort_key (\<lambda>e. fst (g e)) x xs)"
  by (induction xs) simp_all

lemma sort_key_promises:
  "sort_key (\<lambda>p. fst (snd p)) (map (\<lambda>e. (e, g e)) xs) =
     map (\<lambda>e. (e, g e)) (sort_key (\<lambda>e. fst (g e)) xs)"
  by (induction xs) (simp_all add: insort_key_promises)

lemma settle_resolved:
  "(\<And>e. e \<in> set xs \<Longrightarrow> snd (g e) = Inr ()) \<Longrightarrow>
   settle (map (\<lambda>e. (e, g e)) xs) = (map InstallResolved xs, Inr ())"
proof (induction xs)
  case Nil
  show ?case by simp
next
  case (Cons x xs)
  obtain t where "g x = (t, Inr ())"
    using Cons.prems [of x] by (cases "g x") simp
  then show ?case using Cons by simp
qed

lemma settle_rejected:
  "\<exists>e \<in> set xs. isl (snd (g e)) \<Longrightarrow>
   \<exists>before e err after. xs = before @ e # after \<and> snd (g e) = Inl err \<and>
     (\<forall>e' \<in> set before. snd (g e') = Inr ()) \<and>
     settle (map (\<lambda>e. (e, g e)) xs) = (map InstallResolved before @ [InstallRejected e err], Inl err)"
proof (induction xs)
  case Nil
  then show ?case by simp
next
  case (Cons x xs)
  obtain t r where gx: "g x = (t, r)" by (cases "g x")
  show ?case
  proof (cases r)
    case (Inl err)
    have "x # xs = [] @ x # xs \<and> snd (g x) = Inl err \<and>
      (\<forall>e' \<in> set []. snd (g e') = Inr ()) \<and>
      settle (map (\<lambda>e. (e, g e)) (x # xs)) = (map InstallResolved [] @ [InstallRejected x err], Inl err)"
      using gx Inl by simp
    then show ?thesis by blast
  next
    case (Inr u)
    then have "\<exists>e \<in> set xs. isl (snd (g e))" using Cons.prems gx by auto
    from Cons.IH [OF this] obtain before e err after where
      split: "xs = before @ e # after" and rej: "snd (g e) = Inl err" and
      res: "\<forall>e' \<in> set before. snd (g e') = Inr ()" and
      run: "settle (map (\<lambda>e. (e, g e)) xs) = (map InstallResolved before @ [InstallRejected e err], Inl err)"
      by blast
    have "x # xs = (x # before) @ e # after \<and> snd (g e) = Inl err \<and>
      (\<forall>e' \<in> set (x # before). snd (g e') = Inr ()) \<and>
      settle (map (\<lambda>e. (e, g e)) (x # xs)) =
        (map InstallResolved (x # before) @ [InstallRejected e err], Inl err)"
      using split rej res run gx Inr by simp
    then show ?thesis by blast
  qed
qed

lemma Promise_all_resolved:
  assumes "\<And>e. e \<in> set xs \<Longrightarrow> snd (g e) = Inr ()"
  shows "Promise_all (map (\<lambda>e. (e, g e)) xs) =
     (map InstallResolved (sort_key (\<lambda>e. fst (g e)) xs), Inr ())"
  unfolding Promise_all_def sort_key_promises
  by (rule settle_resolved) (simp add: assms)

lemma Promise_all_rejected:
  assumes "\<exists>e \<in> set xs. isl (snd (g e))"
  shows "\<exists>before e err. e \<in> set xs \<and> snd (g e) = Inl err \<and>
     set before \<subseteq> set xs \<and> (\<forall>e' \<in> set before. snd (g e') = Inr ()) \<and>
     (\<forall>e' \<in> set xs. isl (snd (g e')) \<longrightarrow> fst (g e) \<le> fst (g e')) \<and>
     Promise_all (map (\<lambda>e. (e, g e)) xs) =
       (map InstallResolved before @ [InstallRejected e err], Inl err)"
proof -
  let ?order = "sort_key (\<lambda>e. fst (g e)) xs"
  have "\<exists>e \<in> set ?order. isl (snd (g e))" using assms by simp
  from settle_rejected [OF this] obtain before e err after where
    split: "?order = before @ e # after" and rej: "snd (g e) = Inl err" and
    res: "\<forall>e' \<in> set before. snd (g e') = Inr ()" and
    run: "settle (map (\<lambda>e. (e, g e)) ?order) =
      (map InstallResolved before @ [InstallRejected e err], Inl err)"
    by blast
  have members: "set xs = set before \<union> {e} \<union> set after"
    using split set_sort [of "\<lambda>e. fst (g e)" xs] by simp
  have "sorted (map (\<lambda>e. fst (g e)) (before @ e # after))"
    using sorted_sort_key [of "\<lambda>e. fst (g e)" xs] split by simp
  then have later: "\<forall>e' \<in> set after. fst (g e) \<le> fst (g e')"
    by (simp add: sorted_append)
  have first: "\<forall>e' \<in> set xs. isl (snd (g e')) \<longrightarrow> fst (g e) \<le> fst (g e')"
  proof (intro ballI impI)
    fix e' assume "e' \<in> set xs" and isl: "isl (snd (g e'))"
    then consider "e' \<in> set before" | "e' = e" | "e' \<in> set after"
      using members by auto
    then show "fst (g e) \<le> fst (g e')"
    proof cases
      case 1
      then show ?thesis using res isl by auto
    next
      case 2
      then show ?thesis by simp
    next
      case 3
      then show ?thesis using later by simp
    qed
  qed
  have "Promise_all (map (\<lambda>e. (e, g e)) xs) =
       (map InstallResolved before @ [InstallRejected e err], Inl err)"
    using run by (simp add: Promise_all_def sort_key_promises)
  then show ?thesis using members rej res first by blast
qed

lemma installMissingDependencies_rejected_early:
  "getUninstalledMissingDependencies h = (t, Inl e) \<Longrightarrow> installMissingDependencies h = (t, Inl e)"
  by (simp add: installMissingDependencies_def await_simps)

lemma installMissingDependencies_nothing_missing:
  "getUninstalledMissingDependencies h = (t, Inr []) \<Longrightarrow>
   installMissingDependencies h = (t @ [NotifyInfo noMissingDepsMessage], Inr ())"
  by (simp add: installMissingDependencies_def await_simps call_def)

lemma installMissingDependencies_query_rejected:
  "getUninstalledMissingDependencies h = (t, Inr m) \<Longrightarrow> m \<noteq> [] \<Longrightarrow>
   queryGallery h m (length m) = Inl e \<Longrightarrow>
   installMissingDependencies h = (t @ [QueryGallery m (length m)], Inl e)"
  by (simp add: installMissingDependencies_def await_simps call_def)

lemma installMissingDependencies_none_found:
  "getUninstalledMissingDependencies h = (t, Inr m) \<Longrightarrow> m \<noteq> [] \<Longrightarrow>
   queryGallery h m (length m) = Inr pager \<Longrightarrow> firstPage pager = [] \<Longrightarrow>
   installMissingDependencies h = (t @ [QueryGallery m (length m)], Inr ())"
  by (simp add: installMissingDependencies_def await_simps call_def resolve_def)

lemma installMissingDependencies_found:
  "getUninstalledMissingDependencies h = (t, Inr m) \<Longrightarrow> m \<noteq> [] \<Longrightarrow>
   queryGallery h m (length m) = Inr pager \<Longrightarrow> firstPage pager \<noteq> [] \<Longrightarrow>
   installMissingDependencies h =
     (case Promise_all (map (\<lambda>e. (e, install h e)) (firstPage pager)) of
        (settled, Inl e) \<Rightarrow>
          (t @ QueryGallery m (length m) # map Install (firstPage pager) @ settled, Inl e)
      | (settled, Inr u) \<Rightarrow>
          (t @ QueryGallery m (length m) # map Install (firstPage pager) @ settled @
             [Notify finishedNotification], Inr ()))"
  by (simp add: installMissingDependencies_def await_simps call_def issueInstalls_def Let_def
      await_def split: prod.splits sum.splits)

text \<open>What the example hosts compute.\<close>

lemma exampleHost_uninstalled:
  "getUninstalledMissingDependencies exampleHost = ([GetExtensions, QueryLocal], Inr [''B''])"
  by (simp add: getUninstalledMissingDependencies_def getAllMissingDependencies_eq
      exampleHost_def runningExtensionsIds_def declared_def Set_has_def Set_add_def
      asciiToLowerCase_def asciiToLowerCase_char_def await_simps call_def resolve_def)

lemma busyHost_uninstalled:
  "getUninstalledMissingDependencies busyHost =
     ([GetExtensions, QueryLocal], Inr [''Pub.B'', ''pub.b''])"
  by (simp add: getUninstalledMissingDependencies_def getAllMissingDependencies_eq
      busyHost_def runningExtensionsIds_def declared_def Set_has_def Set_add_def
      extensionWithId_def sameIdIgnoringCase_def
      asciiToLowerCase_def asciiToLowerCase_char_def await_simps call_def resolve_def)

lemma nothingMissingHost_uninstalled:
  "getUninstalledMissingDependencies nothingMissingHost = ([GetExtensions, QueryLocal], Inr [])"
  by (simp add: getUninstalledMissingDependencies_def getAllMissingDependencies_eq
      nothingMissingHost_def exampleHost_def runningExtensionsIds_def declared_def Set_has_def
      Set_add_def extensionWithId_def sameIdIgnoringCase_def
      asciiToLowerCase_def asciiToLowerCase_char_def await_simps call_def resolve_def)

lemma getUninstalledMissingDependencies_host_cong:
  "getExtensions h' = getExtensions h \<Longrightarrow> queryLocal h' = queryLocal h \<Longrightarrow>
   areSameExtensions h' = areSameExtensions h \<Longrightarrow> toLowerCase h' = toLowerCase h \<Longrightarrow>
   getUninstalledMissingDependencies h' = getUninstalledMissingDependencies h"
  by (simp add: getUninstalledMissingDependencies_def getAllMissingDependencies_def)

text \<open>
  Claim C6. For every run of \<open>installMissingDependencies\<close> in which the uninstalled
  missing dependency list is empty, exactly one informational notification is shown, saying
  that there are no missing dependencies to install, and no gallery query and no install
  call is issued.
\<close>

theorem installMissingDependencies_nothing_to_install:
  assumes "snd (getUninstalledMissingDependencies h) = Inr []"
  shows "installMissingDependencies h =
       ([GetExtensions, QueryLocal,
         NotifyInfo ''There are no missing dependencies to install.''], Inr ()) \<and>
     notifications (fst (installMissingDependencies h)) =
       [NotifyInfo ''There are no missing dependencies to install.''] \<and>
     filter isGalleryQuery (fst (installMissingDependencies h)) = [] \<and>
     filter isInstall (fst (installMissingDependencies h)) = []"
proof -
  have "getUninstalledMissingDependencies h = ([GetExtensions, QueryLocal], Inr [])"
    using assms by (rule getUninstalledMissingDependencies_resolved)
  then have "installMissingDependencies h =
       ([GetExtensions, QueryLocal,
         NotifyInfo ''There are no missing dependencies to install.''], Inr ())"
    using installMissingDependencies_nothing_missing [of h "[GetExtensions, QueryLocal]"]
    by (simp add: noMissingDepsMessage_def localize_def)
  then show ?thesis by (simp add: notifications_def)
qed

theorem installMissingDependencies_nothing_to_install_witness:
  "snd (getUninstalledMissingDependencies nothingMissingHost) = Inr [] \<and>
   installMissingDependencies nothingMissingHost =
     ([GetExtensions, QueryLocal,
       NotifyInfo ''There are no missing dependencies to install.''], Inr ())"
proof -
  have empty: "snd (getUninstalledMissingDependencies nothingMissingHost) = Inr []"
    by (simp add: nothingMissingHost_uninstalled)
  show ?thesis
    using installMissingDependencies_nothing_to_install [OF empty] empty by simp
qed

text \<open>
  Claim C7. For every run of \<open>installMissingDependencies\<close> in which the uninstalled
  missing dependency list is not empty but the first page of the gallery query has no
  extension, no notification of any kind is shown and no install call is issued: after
  the gallery query nothing happens.
\<close>

theorem installMissingDependencies_gallery_empty:
  assumes "snd (getUninstalledMissingDependencies h) = Inr missing" and "missing \<noteq> []"
    and "queryGallery h missing (length missing) = Inr pager" and "firstPage pager = []"
  shows "installMissingDependencies h =
       ([GetExtensions, QueryLocal, QueryGallery missing (length missing)], Inr ()) \<and>
     notifications (fst (installMissingDependencies h)) = [] \<and>
     filter isInstall (fst (installMissingDependencies h)) = []"
proof -
  have "getUninstalledMissingDependencies h = ([GetExtensions, QueryLocal], Inr missing)"
    using assms(1) by (rule getUninstalledMissingDependencies_resolved)
  then have "installMissingDependencies h =
       ([GetExtensions, QueryLocal, QueryGallery missing (length missing)], Inr ())"
    using installMissingDependencies_none_found [OF _ assms(2-4)] by simp
  then show ?thesis by (simp add: notifications_def)
qed

theorem installMissingDependencies_gallery_empty_witness:
  "snd (getUninstalledMissingDependencies emptyGalleryHost) = Inr [''B''] \<and> [''B''] \<noteq> [] \<and>
   queryGallery emptyGalleryHost [''B''] (length [''B'']) = Inr \<lparr>firstPage = []\<rparr> \<and>
   firstPage \<lparr>firstPage = []\<rparr> = [] \<and>
   installMissingDependencies emptyGalleryHost =
     ([GetExtensions, QueryLocal, QueryGallery [''B''] 1], Inr ())"
proof -
  have "getUninstalledMissingDependencies emptyGalleryHost =
      getUninstalledMissingDependencies exampleHost"
    by (rule getUninstalledMissingDependencies_host_cong) (simp_all add: emptyGalleryHost_def)
  then have missing: "snd (getUninstalledMissingDependencies emptyGalleryHost) = Inr [''B'']"
    by (simp add: exampleHost_uninstalled)
  have nonempty: "[''B''] \<noteq> []" by simp
  have query: "queryGallery emptyGalleryHost [''B''] (length [''B'']) = Inr \<lparr>firstPage = []\<rparr>"
    by (simp add: emptyGalleryHost_def)
  have page: "firstPage \<lparr>firstPage = []\<rparr> = []" by simp
  show ?thesis
    using installMissingDependencies_gallery_empty [OF missing nonempty query page]
      missing query by simp
qed

lemma failingInstallHost_uninstalled:
  "getUninstalledMissingDependencies failingInstallHost =
     ([GetExtensions, QueryLocal], Inr [''Pub.B'', ''pub.b''])"
proof -
  have "getUninstalledMissingDependencies failingInstallHost =
      getUninstalledMissingDependencies busyHost"
    by (rule getUninstalledMissingDependencies_host_cong) (simp_all add: failingInstallHost_def)
  then show ?thesis by (simp add: busyHost_uninstalled)
qed

lemma filter_isInstall_map_Install: "filter isInstall (map Install xs) = map Install xs"
  by (induction xs) simp_all

lemma filter_isInstall_map_InstallResolved: "filter isInstall (map InstallResolved xs) = []"
  by (induction xs) simp_all

lemma filter_isNotification_map_Install: "filter isNotification (map Install xs) = []"
  by (induction xs) simp_all

lemma filter_isNotification_map_InstallResolved:
  "filter isNotification (map InstallResolved xs) = []"
  by (induction xs) simp_all

lemma calls_map_Install: "filter (\<lambda>ev. \<not> isSettlement ev) (map Install xs) = map Install xs"
  by (induction xs) simp_all

lemma calls_map_InstallResolved:
  "filter (\<lambda>ev. \<not> isSettlement ev) (map InstallResolved xs) = []"
  by (induction xs) simp_all

lemmas trace_filters =
  filter_isInstall_map_Install filter_isInstall_map_InstallResolved
  filter_isNotification_map_Install filter_isNotification_map_InstallResolved
  calls_map_Install calls_map_InstallResolved

text \<open>
  Claim C3. For every run of \<open>installMissingDependencies\<close> in which the uninstalled
  missing dependency list is not empty and the first page of the gallery query has
  \<open>N > 0\<close> descriptors: exactly those \<open>N\<close> descriptors are passed to \<open>install\<close>, in
  order and all of them before any settlement is awaited; and exactly one notification is
  shown, only after all \<open>N\<close> install promises have resolved: it is the last event of the
  run, after the \<open>N\<close> resolutions in the order of their settle times, it has severity
  \<open>Info\<close>, the message \<open>Finished installing missing dependencies. Please reload the
  window now.\<close> and one action that reloads the window. As long as not all \<open>N\<close> promises
  resolve, there is no notification.
\<close>

theorem installMissingDependencies_installs_then_notifies:
  assumes "snd (getUninstalledMissingDependencies h) = Inr missing" and "missing \<noteq> []"
    and "queryGallery h missing (length missing) = Inr pager" and "firstPage pager \<noteq> []"
  shows "filter isInstall (fst (installMissingDependencies h)) = map Install (firstPage pager) \<and>
     (\<exists>rest. fst (installMissingDependencies h) =
        [GetExtensions, QueryLocal, QueryGallery missing (length missing)] @
        map Install (firstPage pager) @ rest \<and> filter isInstall rest = []) \<and>
     ((\<forall>extension \<in> set (firstPage pager). snd (install h extension) = Inr ()) \<longrightarrow>
        installMissingDependencies h =
          ([GetExtensions, QueryLocal, QueryGallery missing (length missing)] @
           map Install (firstPage pager) @
           map InstallResolved (sort_key (\<lambda>extension. fst (install h extension)) (firstPage pager)) @
           [Notify finishedNotification], Inr ())) \<and>
     notifications (fst (installMissingDependencies h)) =
       (if \<forall>extension \<in> set (firstPage pager). snd (install h extension) = Inr ()
        then [Notify finishedNotification] else []) \<and>
     severity finishedNotification = Info \<and>
     message finishedNotification =
       ''Finished installing missing dependencies. Please reload the window now.'' \<and>
     map run (actions_primary finishedNotification) = [[reloadWindow]]"
proof -
  let ?exts = "firstPage pager"
  let ?pre = "[GetExtensions, QueryLocal, QueryGallery missing (length missing)]"
  have uninstalled: "getUninstalledMissingDependencies h = ([GetExtensions, QueryLocal], Inr missing)"
    using assms(1) by (rule getUninstalledMissingDependencies_resolved)
  note run = installMissingDependencies_found [OF uninstalled assms(2-4)]
  have notification: "severity finishedNotification = Info \<and>
     message finishedNotification =
       ''Finished installing missing dependencies. Please reload the window now.'' \<and>
     map run (actions_primary finishedNotification) = [[reloadWindow]]"
    by (simp add: finishedNotification_def reloadAction_def localize_def)
  show ?thesis
  proof (cases "\<forall>extension \<in> set ?exts. snd (install h extension) = Inr ()")
    case True
    then have "Promise_all (map (\<lambda>e. (e, install h e)) ?exts) =
        (map InstallResolved (sort_key (\<lambda>e. fst (install h e)) ?exts), Inr ())"
      by (intro Promise_all_resolved) simp
    then have eq: "installMissingDependencies h =
        (?pre @ map Install ?exts @
         map InstallResolved (sort_key (\<lambda>e. fst (install h e)) ?exts) @
         [Notify finishedNotification], Inr ())"
      using run by simp
    have "filter isInstall (fst (installMissingDependencies h)) = map Install ?exts"
      by (simp add: eq trace_filters)
    moreover have "\<exists>rest. fst (installMissingDependencies h) = ?pre @ map Install ?exts @ rest \<and>
        filter isInstall rest = []"
      by (intro exI [of _ "map InstallResolved (sort_key (\<lambda>e. fst (install h e)) ?exts) @
         [Notify finishedNotification]"]) (simp add: eq trace_filters)
    moreover have "notifications (fst (installMissingDependencies h)) = [Notify finishedNotification]"
      by (simp add: eq notifications_def trace_filters)
    ultimately show ?thesis using True eq notification by simp
  next
    case False
    then have "\<exists>e \<in> set ?exts. isl (snd (install h e))"
      by (metis isl_def old.unit.exhaust sum.collapse(2) sum.exhaust_sel)
    from Promise_all_rejected [OF this] obtain before e err where
      "Promise_all (map (\<lambda>e. (e, install h e)) ?exts) =
         (map InstallResolved before @ [InstallRejected e err], Inl err)"
      by blast
    then have eq: "installMissingDependencies h =
        (?pre @ map Install ?exts @ map InstallResolved before @ [InstallRejected e err], Inl err)"
      using run by simp
    have "filter isInstall (fst (installMissingDependencies h)) = map Install ?exts"
      by (simp add: eq trace_filters)
    moreover have "\<exists>rest. fst (installMissingDependencies h) = ?pre @ map Install ?exts @ rest \<and>
        filter isInstall rest = []"
      by (intro exI [of _ "map InstallResolved before @ [InstallRejected e err]"])
        (simp add: eq trace_filters)
    moreover have "notifications (fst (installMissingDependencies h)) =
       (if \<forall>extension \<in> set (firstPage pager). snd (install h extension) = Inr ()
        then [Notify finishedNotification] else [])"
      using False by (simp add: eq notifications_def trace_filters)
    moreover have "(\<forall>extension \<in> set (firstPage pager). snd (install h extension) = Inr ()) \<longrightarrow>
        installMissingDependencies h =
          (?pre @ map Install (firstPage pager) @
           map InstallResolved (sort_key (\<lambda>extension. fst (install h extension)) (firstPage pager)) @
           [Notify finishedNotification], Inr ())"
      using False by blast
    ultimately show ?thesis using notification by blast
  qed
qed

theorem installMissingDependencies_installs_then_notifies_witness:
  "snd (getUninstalledMissingDependencies busyHost) = Inr [''Pub.B'', ''pub.b''] \<and>
   [''Pub.B'', ''pub.b''] \<noteq> [] \<and>
   queryGallery busyHost [''Pub.B'', ''pub.b''] (length [''Pub.B'', ''pub.b'']) =
     Inr \<lparr>firstPage = [extensionWithId ''Pub.B'', extensionWithId ''pub.b'']\<rparr> \<and>
   firstPage \<lparr>firstPage = [extensionWithId ''Pub.B'', extensionWithId ''pub.b'']\<rparr> \<noteq> [] \<and>
   installMissingDependencies busyHost =
     ([GetExtensions, QueryLocal, QueryGallery [''Pub.B'', ''pub.b''] 2,
       Install (extensionWithId ''Pub.B''), Install (extensionWithId ''pub.b''),
       InstallResolved (extensionWithId ''pub.b''), InstallResolved (extensionWithId ''Pub.B''),
       Notify finishedNotification], Inr ())"
proof -
  have missing: "snd (getUninstalledMissingDependencies busyHost) = Inr [''Pub.B'', ''pub.b'']"
    by (simp add: busyHost_uninstalled)
  have nonempty: "[''Pub.B'', ''pub.b''] \<noteq> []" by simp
  have query: "queryGallery busyHost [''Pub.B'', ''pub.b''] (length [''Pub.B'', ''pub.b'']) =
     Inr \<lparr>firstPage = [extensionWithId ''Pub.B'', extensionWithId ''pub.b'']\<rparr>"
    by (simp add: busyHost_def)
  have page: "firstPage \<lparr>firstPage = [extensionWithId ''Pub.B'', extensionWithId ''pub.b'']\<rparr> \<noteq> []"
    by simp
  have installs: "install busyHost (extensionWithId ''Pub.B'') = (2, Inr ())"
    "install busyHost (extensionWithId ''pub.b'') = (1, Inr ())"
    by (simp_all add: busyHost_def extensionWithId_def)
  show ?thesis
    using installMissingDependencies_installs_then_notifies [OF missing nonempty query page]
      missing query
    by (simp add: installs)
qed

text \<open>
  Claim C8. For every run of \<open>installMissingDependencies\<close> in which at least one install
  call rejects, the whole operation fails with that rejection (of the install that rejects
  first), which nothing catches: a caller that does not await it is left with an unhandled
  rejection. The finished notification is not shown. All install calls have been issued
  before, and the checker makes no call after them: the installs of the other extensions
  are neither cancelled nor rolled back.
\<close>

theorem installMissingDependencies_install_rejects:
  assumes "snd (getUninstalledMissingDependencies h) = Inr missing" and "missing \<noteq> []"
    and "queryGallery h missing (length missing) = Inr pager"
    and "\<exists>extension \<in> set (firstPage pager). isl (snd (install h extension))"
  shows "\<exists>before rejected err.
     rejected \<in> set (firstPage pager) \<and> snd (install h rejected) = Inl err \<and>
     (\<forall>extension \<in> set (firstPage pager). isl (snd (install h extension)) \<longrightarrow>
        fst (install h rejected) \<le> fst (install h extension)) \<and>
     set before \<subseteq> set (firstPage pager) \<and>
     (\<forall>extension \<in> set before. snd (install h extension) = Inr ()) \<and>
     installMissingDependencies h =
       ([GetExtensions, QueryLocal, QueryGallery missing (length missing)] @
        map Install (firstPage pager) @ map InstallResolved before @
        [InstallRejected rejected err], Inl err) \<and>
     floating (installMissingDependencies h) =
       (fst (installMissingDependencies h) @ [UnhandledRejection err], Inr ()) \<and>
     notifications (fst (installMissingDependencies h)) = [] \<and>
     calls (fst (installMissingDependencies h)) =
       [GetExtensions, QueryLocal, QueryGallery missing (length missing)] @
       map Install (firstPage pager)"
proof -
  let ?exts = "firstPage pager"
  let ?pre = "[GetExtensions, QueryLocal, QueryGallery missing (length missing)]"
  have uninstalled: "getUninstalledMissingDependencies h = ([GetExtensions, QueryLocal], Inr missing)"
    using assms(1) by (rule getUninstalledMissingDependencies_resolved)
  have page: "?exts \<noteq> []" using assms(4) by auto
  note run = installMissingDependencies_found [OF uninstalled assms(2,3) page]
  from Promise_all_rejected [OF assms(4)] obtain before e err where
    e: "e \<in> set ?exts" "snd (install h e) = Inl err" and
    first: "\<forall>e' \<in> set ?exts. isl (snd (install h e')) \<longrightarrow> fst (install h e) \<le> fst (install h e')" and
    before: "set before \<subseteq> set ?exts" "\<forall>e' \<in> set before. snd (install h e') = Inr ()" and
    all: "Promise_all (map (\<lambda>e. (e, install h e)) ?exts) =
         (map InstallResolved before @ [InstallRejected e err], Inl err)"
    by blast
  have eq: "installMissingDependencies h =
      (?pre @ map Install ?exts @ map InstallResolved before @ [InstallRejected e err], Inl err)"
    using run all by simp
  have unhandled: "floating (installMissingDependencies h) =
       (fst (installMissingDependencies h) @ [UnhandledRejection err], Inr ())"
    by (simp add: eq floating_def)
  have quiet: "notifications (fst (installMissingDependencies h)) = []"
    by (simp add: eq notifications_def trace_filters)
  have issued: "calls (fst (installMissingDependencies h)) = ?pre @ map Install ?exts"
    by (simp add: eq calls_def trace_filters)
  show ?thesis
    using e first before eq unhandled quiet issued by blast
qed

theorem installMissingDependencies_install_rejects_witness:
  "snd (getUninstalledMissingDependencies failingInstallHost) = Inr [''Pub.B'', ''pub.b''] \<and>
   [''Pub.B'', ''pub.b''] \<noteq> [] \<and>
   queryGallery failingInstallHost [''Pub.B'', ''pub.b''] (length [''Pub.B'', ''pub.b'']) =
     Inr \<lparr>firstPage = [extensionWithId ''Pub.B'', extensionWithId ''pub.b'']\<rparr> \<and>
   isl (snd (install failingInstallHost (extensionWithId ''pub.b''))) \<and>
   calls (fst (installMissingDependencies failingInstallHost)) =
     [GetExtensions, QueryLocal, QueryGallery [''Pub.B'', ''pub.b''] 2,
      Install (extensionWithId ''Pub.B''), Install (extensionWithId ''pub.b'')] \<and>
   notifications (fst (installMissingDependencies failingInstallHost)) = [] \<and>
   snd (installMissingDependencies failingInstallHost) = Inl (Rejection ''install failed'')"
proof -
  have missing: "snd (getUninstalledMissingDependencies failingInstallHost) = Inr [''Pub.B'', ''pub.b'']"
    by (simp add: failingInstallHost_uninstalled)
  have nonempty: "[''Pub.B'', ''pub.b''] \<noteq> []" by simp
  have query: "queryGallery failingInstallHost [''Pub.B'', ''pub.b''] (length [''Pub.B'', ''pub.b'']) =
     Inr \<lparr>firstPage = [extensionWithId ''Pub.B'', extensionWithId ''pub.b'']\<rparr>"
    by (simp add: failingInstallHost_def busyHost_def)
  have installs: "install failingInstallHost (extensionWithId ''Pub.B'') = (2, Inr ())"
    "install failingInstallHost (extensionWithId ''pub.b'') = (1, Inl (Rejection ''install failed''))"
    by (simp_all add: failingInstallHost_def busyHost_def extensionWithId_def)
  have rejects: "\<exists>extension \<in> set (firstPage \<lparr>firstPage = [extensionWithId ''Pub.B'', extensionWithId ''pub.b'']\<rparr>).
      isl (snd (install failingInstallHost extension))"
    by (simp add: installs)
  let ?page = "firstPage \<lparr>firstPage = [extensionWithId ''Pub.B'', extensionWithId ''pub.b'']\<rparr>"
  from installMissingDependencies_install_rejects [OF missing nonempty query rejects]
  obtain before rejected err where
    rejected: "rejected \<in> set ?page" "snd (install failingInstallHost rejected) = Inl err" and
    run: "installMissingDependencies failingInstallHost =
       ([GetExtensions, QueryLocal,
         QueryGallery [''Pub.B'', ''pub.b''] (length [''Pub.B'', ''pub.b''])] @
        map Install ?page @ map InstallResolved before @ [InstallRejected rejected err], Inl err)" and
    quiet: "notifications (fst (installMissingDependencies failingInstallHost)) = []" and
    issued: "calls (fst (installMissingDependencies failingInstallHost)) =
       [GetExtensions, QueryLocal,
        QueryGallery [''Pub.B'', ''pub.b''] (length [''Pub.B'', ''pub.b''])] @
       map Install ?page"
    by blast
  have "err = Rejection ''install failed''"
    using rejected by (auto simp: installs)
  then have "snd (installMissingDependencies failingInstallHost) = Inl (Rejection ''install failed'')"
    by (simp add: run)
  then show ?thesis
    using missing query quiet issued by (simp add: installs)
qed

subsection \<open>The automatic check\<close>

lemma checkAndInstallMissingDependencies_rejected:
  "getUninstalledMissingDependencies h = (t, Inl e) \<Longrightarrow>
   checkAndInstallMissingDependencies h = (t, Inl e)"
  by (simp add: checkAndInstallMissingDependencies_def await_simps)

lemma checkAndInstallMissingDependencies_nothing_missing:
  "getUninstalledMissingDependencies h = (t, Inr []) \<Longrightarrow>
   checkAndInstallMissingDependencies h = (t, Inr ())"
  by (simp add: checkAndInstallMissingDependencies_def await_simps resolve_def)

lemma checkAndInstallMissingDependencies_flag_off:
  "getUninstalledMissingDependencies h = (t, Inr m) \<Longrightarrow> m \<noteq> [] \<Longrightarrow>
   \<not> getValue h autoInstallKey \<Longrightarrow>
   checkAndInstallMissingDependencies h = (t @ [GetValue autoInstallKey], Inr ())"
  by (simp add: checkAndInstallMissingDependencies_def await_simps resolve_def call_def)

lemma checkAndInstallMissingDependencies_flag_on:
  "getUninstalledMissingDependencies h = (t, Inr m) \<Longrightarrow> m \<noteq> [] \<Longrightarrow>
   getValue h autoInstallKey \<Longrightarrow>
   checkAndInstallMissingDependencies h =
     (t @ [GetValue autoInstallKey] @ fst (floating (installMissingDependencies h)), Inr ())"
  by (simp add: checkAndInstallMissingDependencies_def await_simps call_def floating_def
      split: prod.splits sum.splits)

lemma fst_floating: "fst (floating m) = fst m @ (case snd m of Inl e \<Rightarrow> [UnhandledRejection e] | Inr x \<Rightarrow> [])"
  by (cases m) (simp add: floating_def split: sum.splits)

lemma installMissingDependencies_queries:
  assumes "getUninstalledMissingDependencies h = (t, Inr m)" and "m \<noteq> []"
  shows "\<exists>rest. fst (installMissingDependencies h) = t @ QueryGallery m (length m) # rest"
proof (cases "queryGallery h m (length m)")
  case (Inl e)
  then show ?thesis
    using installMissingDependencies_query_rejected [OF assms] by simp
next
  case (Inr pager)
  show ?thesis
  proof (cases "firstPage pager = []")
    case True
    then show ?thesis
      using installMissingDependencies_none_found [OF assms Inr] by simp
  next
    case False
    then show ?thesis
      using installMissingDependencies_found [OF assms Inr]
      by (auto split: prod.splits sum.splits)
  qed
qed

lemma installMissingDependencies_starts:
  "\<exists>rest. fst (installMissingDependencies h) = GetExtensions # rest"
proof -
  consider e where "getUninstalledMissingDependencies h = ([GetExtensions], Inl e)"
    | e where "getUninstalledMissingDependencies h = ([GetExtensions, QueryLocal], Inl e)"
    | "getUninstalledMissingDependencies h = ([GetExtensions, QueryLocal], Inr [])"
    | m where "getUninstalledMissingDependencies h = ([GetExtensions, QueryLocal], Inr m)" "m \<noteq> []"
    using getUninstalledMissingDependencies_cases [of h] by (metis)
  then show ?thesis
  proof cases
    case 1
    then show ?thesis by (simp add: installMissingDependencies_rejected_early)
  next
    case 2
    then show ?thesis by (simp add: installMissingDependencies_rejected_early)
  next
    case 3
    then show ?thesis by (simp add: installMissingDependencies_nothing_missing)
  next
    case 4
    then show ?thesis using installMissingDependencies_queries [OF 4] by auto
  qed
qed

text \<open>
  Claim C2. For every state of the services, \<open>checkAndInstallMissingDependencies\<close>
  triggers \<open>installMissingDependencies\<close> if and only if the uninstalled missing
  dependency list is not empty and the configuration value
  \<open>extensions.autoInstallMissingDependencies\<close> is true; in every other case it performs
  no gallery query and shows no notification. Triggering is seen twice in the trace: the
  run of \<open>installMissingDependencies\<close> (not awaited) follows the read of the
  configuration, and a gallery query is issued. In every other case the check does
  nothing but read the extensions and, at most, the configuration.
\<close>

theorem checkAndInstallMissingDependencies_triggers:
  "(fst (checkAndInstallMissingDependencies h) =
      [GetExtensions, QueryLocal, GetValue ''extensions.autoInstallMissingDependencies''] @
      fst (floating (installMissingDependencies h))
    \<longleftrightarrow>
    (\<exists>missing. snd (getUninstalledMissingDependencies h) = Inr missing \<and> missing \<noteq> [] \<and>
       getValue h ''extensions.autoInstallMissingDependencies'')) \<and>
   (filter isGalleryQuery (fst (checkAndInstallMissingDependencies h)) \<noteq> []
    \<longleftrightarrow>
    (\<exists>missing. snd (getUninstalledMissingDependencies h) = Inr missing \<and> missing \<noteq> [] \<and>
       getValue h ''extensions.autoInstallMissingDependencies'')) \<and>
   (\<not> (\<exists>missing. snd (getUninstalledMissingDependencies h) = Inr missing \<and> missing \<noteq> [] \<and>
         getValue h ''extensions.autoInstallMissingDependencies'') \<longrightarrow>
    filter isGalleryQuery (fst (checkAndInstallMissingDependencies h)) = [] \<and>
    filter isInstall (fst (checkAndInstallMissingDependencies h)) = [] \<and>
    notifications (fst (checkAndInstallMissingDependencies h)) = [] \<and>
    set (fst (checkAndInstallMissingDependencies h)) \<subseteq>
      {GetExtensions, QueryLocal, GetValue ''extensions.autoInstallMissingDependencies''})"
proof -
  let ?key = "''extensions.autoInstallMissingDependencies''"
  let ?cond = "\<exists>missing. snd (getUninstalledMissingDependencies h) = Inr missing \<and> missing \<noteq> [] \<and>
       getValue h ?key"
  let ?check = "fst (checkAndInstallMissingDependencies h)"
  let ?install = "fst (floating (installMissingDependencies h))"
  have key: "autoInstallKey = ?key" by (simp add: autoInstallKey_def)
  obtain rest where starts: "?install = GetExtensions # rest"
    using installMissingDependencies_starts [of h] by (auto simp: fst_floating)
  consider e where "getUninstalledMissingDependencies h = ([GetExtensions], Inl e)"
    | e where "getUninstalledMissingDependencies h = ([GetExtensions, QueryLocal], Inl e)"
    | "getUninstalledMissingDependencies h = ([GetExtensions, QueryLocal], Inr [])"
    | m where "getUninstalledMissingDependencies h = ([GetExtensions, QueryLocal], Inr m)"
        "m \<noteq> []" "\<not> getValue h ?key"
    | m where "getUninstalledMissingDependencies h = ([GetExtensions, QueryLocal], Inr m)"
        "m \<noteq> []" "getValue h ?key"
    using getUninstalledMissingDependencies_cases [of h] by metis
  then show ?thesis
  proof cases
    case 1
    then have "?check = [GetExtensions]"
      by (simp add: checkAndInstallMissingDependencies_rejected)
    moreover have "\<not> ?cond" using 1 by simp
    ultimately show ?thesis by (simp add: notifications_def)
  next
    case 2
    then have "?check = [GetExtensions, QueryLocal]"
      by (simp add: checkAndInstallMissingDependencies_rejected)
    moreover have "\<not> ?cond" using 2 by simp
    ultimately show ?thesis by (simp add: notifications_def)
  next
    case 3
    then have "?check = [GetExtensions, QueryLocal]"
      by (simp add: checkAndInstallMissingDependencies_nothing_missing)
    moreover have "\<not> ?cond" using 3 by simp
    ultimately show ?thesis by (simp add: notifications_def)
  next
    case 4
    then have "?check = [GetExtensions, QueryLocal, GetValue ?key]"
      using checkAndInstallMissingDependencies_flag_off [of h _ m] by (simp add: key)
    moreover have "\<not> ?cond" using 4 by simp
    ultimately show ?thesis using starts by (simp add: notifications_def)
  next
    case 5
    then have run: "?check = [GetExtensions, QueryLocal, GetValue ?key] @ ?install"
      using checkAndInstallMissingDependencies_flag_on [of h _ m] by (simp add: key)
    obtain rest' where "fst (installMissingDependencies h) =
        [GetExtensions, QueryLocal] @ QueryGallery m (length m) # rest'"
      using installMissingDependencies_queries [OF 5(1,2)] by blast
    then have "filter isGalleryQuery ?install \<noteq> []"
      by (simp add: fst_floating)
    then have query: "filter isGalleryQuery ?check \<noteq> []"
      by (simp add: run)
    have "?cond" using 5 by simp
    then show ?thesis using run query by blast
  qed
qed

theorem checkAndInstallMissingDependencies_triggers_witness:
  "snd (getUninstalledMissingDependencies exampleHost) = Inr [''B''] \<and>
   getValue exampleHost ''extensions.autoInstallMissingDependencies'' \<and>
   filter isGalleryQuery (fst (checkAndInstallMissingDependencies exampleHost)) \<noteq> [] \<and>
   snd (getUninstalledMissingDependencies flagOffHost) = Inr [''B''] \<and>
   \<not> getValue flagOffHost ''extensions.autoInstallMissingDependencies'' \<and>
   filter isGalleryQuery (fst (checkAndInstallMissingDependencies flagOffHost)) = [] \<and>
   notifications (fst (checkAndInstallMissingDependencies flagOffHost)) = []"
proof -
  have on: "snd (getUninstalledMissingDependencies exampleHost) = Inr [''B'']"
    "getValue exampleHost ''extensions.autoInstallMissingDependencies''"
    by (simp_all add: exampleHost_uninstalled) (simp add: exampleHost_def)
  have "getUninstalledMissingDependencies flagOffHost = getUninstalledMissingDependencies exampleHost"
    by (rule getUninstalledMissingDependencies_host_cong) (simp_all add: flagOffHost_def)
  then have off: "snd (getUninstalledMissingDependencies flagOffHost) = Inr [''B'']"
    "\<not> getValue flagOffHost ''extensions.autoInstallMissingDependencies''"
    by (simp_all add: exampleHost_uninstalled flagOffHost_def)
  have triggered: "filter isGalleryQuery (fst (checkAndInstallMissingDependencies exampleHost)) \<noteq> []"
    using checkAndInstallMissingDependencies_triggers [of exampleHost] on by blast
  have quiet: "filter isGalleryQuery (fst (checkAndInstallMissingDependencies flagOffHost)) = []"
    "notifications (fst (checkAndInstallMissingDependencies flagOffHost)) = []"
    using checkAndInstallMissingDependencies_triggers [of flagOffHost] off by blast+
  show ?thesis using on off triggered quiet by blast
qed

subsection \<open>The life of the contribution\<close>

lemma getUninstalledMissingDependencies_live_frozen:
  "atExtensions m = h \<Longrightarrow> atLocal m = h \<Longrightarrow>
   getUninstalledMissingDependencies_live m = getUninstalledMissingDependencies h"
  by (simp add: getUninstalledMissingDependencies_live_def getUninstalledMissingDependencies_def)

lemma installMissingDependencies_live_frozen:
  "installMissingDependencies_live (frozenInstall h) = installMissingDependencies h"
  by (simp add: installMissingDependencies_live_def installMissingDependencies_def
      getUninstalledMissingDependencies_live_frozen [of _ h] frozenInstall_def Let_def
      cong: if_cong)

lemma checkAndInstallMissingDependencies_live_frozen:
  "checkAndInstallMissingDependencies_live (frozenCheck h) = checkAndInstallMissingDependencies h"
  by (simp add: checkAndInstallMissingDependencies_live_def checkAndInstallMissingDependencies_def
      getUninstalledMissingDependencies_live_frozen [of _ h] frozenCheck_def
      installMissingDependencies_live_frozen cong: if_cong)

lemma getUninstalledMissingDependencies_live_cases:
  "(\<exists>e. getUninstalledMissingDependencies_live m = ([GetExtensions], Inl e)) \<or>
   (\<exists>e. getUninstalledMissingDependencies_live m = ([GetExtensions, QueryLocal], Inl e)) \<or>
   (\<exists>missing. getUninstalledMissingDependencies_live m = ([GetExtensions, QueryLocal], Inr missing))"
proof (cases "getExtensions (atExtensions m)")
  case (Inl e)
  then show ?thesis
    by (simp add: getUninstalledMissingDependencies_live_def getAllMissingDependencies_rejected
        await_simps)
next
  case (Inr running)
  show ?thesis
  proof (cases "queryLocal (atLocal m)")
    case (Inl e)
    then show ?thesis
      by (simp add: getUninstalledMissingDependencies_live_def
          getAllMissingDependencies_eq [OF Inr] call_def await_simps)
  next
    case locals: (Inr localExtensions)
    then show ?thesis
      by (simp add: getUninstalledMissingDependencies_live_def
          getAllMissingDependencies_eq [OF Inr] call_def resolve_def await_simps)
  qed
qed

lemma notifications_append: "notifications (s @ t) = notifications s @ notifications t"
  by (simp add: notifications_def)

lemma notifications_floating:
  "notifications (fst (floating m)) = notifications (fst m)"
  by (cases m) (simp add: floating_def notifications_def split: sum.splits)

lemma checkAndInstallMissingDependencies_live_quiet:
  assumes "\<not> getValue (atFlag m) autoInstallKey"
  shows "notifications (fst (floating (checkAndInstallMissingDependencies_live m))) = []"
proof -
  consider e where "getUninstalledMissingDependencies_live m = ([GetExtensions], Inl e)"
    | e where "getUninstalledMissingDependencies_live m = ([GetExtensions, QueryLocal], Inl e)"
    | "getUninstalledMissingDependencies_live m = ([GetExtensions, QueryLocal], Inr [])"
    | missing where "getUninstalledMissingDependencies_live m =
        ([GetExtensions, QueryLocal], Inr missing)" "missing \<noteq> []"
    using getUninstalledMissingDependencies_live_cases [of m] by metis
  then have "notifications (fst (checkAndInstallMissingDependencies_live m)) = []"
  proof cases
    case 1
    then show ?thesis
      by (simp add: checkAndInstallMissingDependencies_live_def await_simps notifications_def)
  next
    case 2
    then show ?thesis
      by (simp add: checkAndInstallMissingDependencies_live_def await_simps notifications_def)
  next
    case 3
    then show ?thesis
      by (simp add: checkAndInstallMissingDependencies_live_def await_simps resolve_def
          notifications_def)
  next
    case 4
    then show ?thesis
      using assms
      by (simp add: checkAndInstallMissingDependencies_live_def await_simps resolve_def call_def
          notifications_def)
  qed
  then show ?thesis by (simp add: notifications_floating)
qed

lemma interleaving_idle:
  "interleaving rs t \<Longrightarrow> interleaving ([] # rs) t"
proof (induction rule: interleaving.induct)
  case (finished rs)
  then show ?case by (simp add: interleaving.finished)
next
  case (next_event i rs x rest t)
  have "Suc i < length ([] # rs)" "([] # rs) ! Suc i = x # rest"
    using next_event.hyps by simp_all
  moreover have "interleaving (([] # rs)[Suc i := rest]) t"
    using next_event.IH by simp
  ultimately show ?case by (rule interleaving.next_event)
qed

lemma interleaving_first:
  "interleaving rs t \<Longrightarrow> interleaving (r # rs) (r @ t)"
proof (induction r)
  case Nil
  then show ?case by (simp add: interleaving_idle)
next
  case (Cons x r)
  have "0 < length ((x # r) # rs)" "((x # r) # rs) ! 0 = x # r" by simp_all
  moreover have "interleaving (((x # r) # rs)[0 := r]) (r @ t)"
    using Cons by simp
  ultimately show ?case
    using interleaving.next_event [of 0 "(x # r) # rs" x r "r @ t"] by simp
qed

lemma interleaving_concat: "interleaving rs (concat rs)"
proof (induction rs)
  case Nil
  show ?case by (simp add: interleaving.finished)
next
  case (Cons r rs)
  then show ?case by (simp add: interleaving_first)
qed

lemma interleaving_event:
  "interleaving rs t \<Longrightarrow> x \<in> set t \<Longrightarrow> \<exists>r \<in> set rs. x \<in> set r"
proof (induction rule: interleaving.induct)
  case (finished rs)
  then show ?case by simp
next
  case (next_event i rs y rest t)
  show ?case
  proof (cases "x = y")
    case True
    then have "x \<in> set (rs ! i)" using next_event.hyps by simp
    then show ?thesis using next_event.hyps(1) nth_mem by blast
  next
    case False
    then have "x \<in> set t" using next_event.prems by simp
    then obtain r where r: "r \<in> set (rs[i := rest])" "x \<in> set r"
      using next_event.IH by blast
    then have "r = rest \<or> r \<in> set rs"
      using set_update_subset_insert [of rs i rest] by auto
    then show ?thesis
    proof
      assume "r = rest"
      then have "x \<in> set (rs ! i)" using r next_event.hyps by simp
      then show ?thesis using next_event.hyps(1) nth_mem by blast
    next
      assume "r \<in> set rs"
      then show ?thesis using r by blast
    qed
  qed
qed

lemma interleaving_notification:
  assumes "interleaving rs t" and "notifications t \<noteq> []"
  shows "\<exists>r \<in> set rs. notifications r \<noteq> []"
proof -
  obtain x where x: "x \<in> set t" "isNotification x"
    using assms(2) by (auto simp: notifications_def filter_empty_conv)
  then obtain r where "r \<in> set rs" "x \<in> set r"
    using interleaving_event [OF assms(1)] by blast
  then show ?thesis using x by (auto simp: notifications_def filter_empty_conv)
qed

lemma react_commands: "commands (fst (react c i)) = commands c"
  by (cases i) simp_all

lemma runs_notification:
  assumes "commands c = [installCommandId]"
    and "r \<in> set (runs c inputs)" and "notifications r \<noteq> []"
  shows "(\<exists>m. ExecuteCommand installCommandId m \<in> set inputs) \<or>
     (\<exists>before affects m after. inputs = before @ DidChangeConfiguration affects m # after \<and>
        Dispose \<notin> set before \<and> configurationListener c \<and> affects autoInstallKey \<and>
        getValue (atFlag m) autoInstallKey)"
  using assms
proof (induction inputs arbitrary: c)
  case Nil
  then show ?case by simp
next
  case (Cons i inputs)
  obtain c' t where step: "react c i = (c', t)" by (cases "react c i")
  have c': "commands c' = [installCommandId]"
    using react_commands [of c i] step Cons.prems(1) by simp
  from Cons.prems(2) step have "r = t \<or> r \<in> set (runs c' inputs)" by simp
  then show ?case
  proof
    assume "r = t"
    then have noisy: "notifications t \<noteq> []" using Cons.prems(3) by simp
    show ?thesis
    proof (cases i)
      case (ExecuteCommand cid m)
      then have "cid = installCommandId"
        using step noisy Cons.prems(1) by (auto simp: notifications_def split: if_splits)
      then show ?thesis using ExecuteCommand by auto
    next
      case (DidChangeConfiguration affects m)
      have on: "configurationListener c \<and> affects autoInstallKey"
        using step noisy DidChangeConfiguration by (auto simp: notifications_def split: if_splits)
      then have "t = fst (floating (checkAndInstallMissingDependencies_live m))"
        using step DidChangeConfiguration by auto
      then have "getValue (atFlag m) autoInstallKey"
        using noisy checkAndInstallMissingDependencies_live_quiet [of m] by auto
      then have "i # inputs = [] @ DidChangeConfiguration affects m # inputs \<and>
          Dispose \<notin> set [] \<and> configurationListener c \<and> affects autoInstallKey \<and>
          getValue (atFlag m) autoInstallKey"
        using on DidChangeConfiguration by simp
      then show ?thesis by blast
    next
      case Dispose
      then show ?thesis using step noisy by (auto simp: notifications_def)
    qed
  next
    assume "r \<in> set (runs c' inputs)"
    from Cons.IH [OF c' this Cons.prems(3)]
    consider m where "ExecuteCommand installCommandId m \<in> set inputs"
      | before affects m after where
          "inputs = before @ DidChangeConfiguration affects m # after"
          "Dispose \<notin> set before" "configurationListener c'" "affects autoInstallKey"
          "getValue (atFlag m) autoInstallKey"
      by blast
    then show ?thesis
    proof cases
      case 1
      then show ?thesis by auto
    next
      case 2
      have "i \<noteq> Dispose"
      proof
        assume "i = Dispose"
        then have "\<not> configurationListener c'" using step by auto
        then show False using 2(3) by simp
      qed
      then have same: "c' = c" using step by (cases i) auto
      have "i # inputs = (i # before) @ DidChangeConfiguration affects m # after \<and>
          Dispose \<notin> set (i # before) \<and> configurationListener c \<and> affects autoInstallKey \<and>
          getValue (atFlag m) autoInstallKey"
        using 2 same \<open>i \<noteq> Dispose\<close> by auto
      then show ?thesis by blast
    qed
  qed
qed


lemma flagOffHost_uninstalled:
  "getUninstalledMissingDependencies flagOffHost = ([GetExtensions, QueryLocal], Inr [''B''])"
proof -
  have "getUninstalledMissingDependencies flagOffHost =
      getUninstalledMissingDependencies exampleHost"
    by (rule getUninstalledMissingDependencies_host_cong) (simp_all add: flagOffHost_def)
  then show ?thesis by (simp add: exampleHost_uninstalled)
qed

lemma exampleHost_install:
  "installMissingDependencies exampleHost =
     ([GetExtensions, QueryLocal, QueryGallery [''B''] 1, Install (extensionWithId ''B''),
       InstallResolved (extensionWithId ''B''), Notify finishedNotification], Inr ())"
proof -
  have query: "queryGallery exampleHost [''B''] (length [''B'']) =
      Inr \<lparr>firstPage = [extensionWithId ''B'']\<rparr>"
    by (simp add: exampleHost_def)
  have settled: "Promise_all (map (\<lambda>e. (e, install exampleHost e)) [extensionWithId ''B'']) =
      ([InstallResolved (extensionWithId ''B'')], Inr ())"
    by (simp add: Promise_all_def exampleHost_def)
  show ?thesis
    using installMissingDependencies_found [OF exampleHost_uninstalled _ query] settled
    by simp
qed

lemma lateFlagReads_check:
  "checkAndInstallMissingDependencies_live lateFlagReads =
     ([GetExtensions, QueryLocal, GetValue ''extensions.autoInstallMissingDependencies'',
       GetExtensions, QueryLocal, QueryGallery [''B''] 1, Install (extensionWithId ''B''),
       InstallResolved (extensionWithId ''B''), Notify finishedNotification], Inr ())"
proof -
  have "getUninstalledMissingDependencies_live lateFlagReads =
      getUninstalledMissingDependencies flagOffHost"
    by (rule getUninstalledMissingDependencies_live_frozen) (simp_all add: lateFlagReads_def)
  then have reads: "getUninstalledMissingDependencies_live lateFlagReads =
      ([GetExtensions, QueryLocal], Inr [''B''])"
    by (simp add: flagOffHost_uninstalled)
  have flag: "getValue (atFlag lateFlagReads) ''extensions.autoInstallMissingDependencies''"
    by (simp add: lateFlagReads_def exampleHost_def)
  have then_install: "installMissingDependencies_live (started lateFlagReads) =
      installMissingDependencies exampleHost"
    by (simp add: lateFlagReads_def installMissingDependencies_live_frozen)
  show ?thesis
    by (simp add: checkAndInstallMissingDependencies_live_def reads flag then_install
        exampleHost_install await_simps call_def floating_def autoInstallKey_def)
qed

text \<open>
  Claim C10, as stated: a notification is shown only if the registered command was
  invoked, or the configuration value was true at the time of an automatic check (at
  construction, or on a change of the setting); an automatic check with the value false
  never produces a notification. Line 66 reads the value only after the awaits of line
  65. Here the contribution is constructed with the setting switched off, and it is
  still off when the extensions of the check have been read; the contribution is disposed,
  so that nothing listens when the setting is then switched on; the check reaches line 66,
  reads true, installs and shows the finished notification. No command was invoked, and
  no automatic check began with the value true.
\<close>

theorem execution_late_flag_notifies:
  "\<not> getValue (atStart lateFlagReads) ''extensions.autoInstallMissingDependencies'' \<and>
   \<not> getValue (atExtensions lateFlagReads) ''extensions.autoInstallMissingDependencies'' \<and>
   \<not> getValue (atLocal lateFlagReads) ''extensions.autoInstallMissingDependencies'' \<and>
   runs (fst (constructor lateFlagReads))
     [Dispose, DidChangeConfiguration anyKey (frozenCheck exampleHost)] = [[], []] \<and>
   interleaving
     (allRuns lateFlagReads [Dispose, DidChangeConfiguration anyKey (frozenCheck exampleHost)])
     [GetExtensions, QueryLocal, GetValue ''extensions.autoInstallMissingDependencies'',
      GetExtensions, QueryLocal, QueryGallery [''B''] 1, Install (extensionWithId ''B''),
      InstallResolved (extensionWithId ''B''), Notify finishedNotification] \<and>
   notifications
     [GetExtensions, QueryLocal, GetValue ''extensions.autoInstallMissingDependencies'',
      GetExtensions, QueryLocal, QueryGallery [''B''] 1, Install (extensionWithId ''B''),
      InstallResolved (extensionWithId ''B''), Notify finishedNotification] =
     [Notify finishedNotification]"
proof -
  let ?inputs = "[Dispose, DidChangeConfiguration anyKey (frozenCheck exampleHost)]"
  let ?t = "[GetExtensions, QueryLocal, GetValue ''extensions.autoInstallMissingDependencies'',
      GetExtensions, QueryLocal, QueryGallery [''B''] 1, Install (extensionWithId ''B''),
      InstallResolved (extensionWithId ''B''), Notify finishedNotification]"
  have off: "\<not> getValue (atStart lateFlagReads) ''extensions.autoInstallMissingDependencies''"
    "\<not> getValue (atExtensions lateFlagReads) ''extensions.autoInstallMissingDependencies''"
    "\<not> getValue (atLocal lateFlagReads) ''extensions.autoInstallMissingDependencies''"
    by (simp_all add: lateFlagReads_def flagOffHost_def)
  have ignored: "runs (fst (constructor lateFlagReads)) ?inputs = [[], []]"
    by (simp add: constructor_def)
  have "allRuns lateFlagReads ?inputs = [?t, [], []]"
    using ignored by (simp add: allRuns_def constructor_def lateFlagReads_check floating_def)
  then have "concat (allRuns lateFlagReads ?inputs) = ?t" by simp
  then have trace: "interleaving (allRuns lateFlagReads ?inputs) ?t"
    using interleaving_concat [of "allRuns lateFlagReads ?inputs"] by simp
  have shown: "notifications ?t = [Notify finishedNotification]"
    by (simp add: notifications_def)
  show ?thesis using off ignored trace shown by (intro conjI)
qed

lemma flagOffHost_check:
  "checkAndInstallMissingDependencies flagOffHost =
     ([GetExtensions, QueryLocal, GetValue ''extensions.autoInstallMissingDependencies''], Inr ())"
proof -
  have off: "\<not> getValue flagOffHost autoInstallKey" by (simp add: flagOffHost_def)
  show ?thesis
    using checkAndInstallMissingDependencies_flag_off [OF flagOffHost_uninstalled _ off]
    by (simp add: autoInstallKey_def)
qed

lemma nothingMissingHost_install:
  "installMissingDependencies nothingMissingHost =
     ([GetExtensions, QueryLocal, NotifyInfo ''There are no missing dependencies to install.''],
      Inr ())"
  using installMissingDependencies_nothing_missing [OF nothingMissingHost_uninstalled]
  by (simp add: noMissingDepsMessage_def localize_def)

text \<open>
  Claim C10, amended: in every execution trace of the contribution, with its runs
  overlapping and the services changing between their awaits, a notification of any kind
  is shown only if the registered command \<open>workbench.extensions.installMissingDepenencies\<close>
  was invoked, or an automatic check (the one of the constructor, or one started by a
  change of the setting before the contribution was disposed) read the value of
  \<open>extensions.autoInstallMissingDependencies\<close> as true at line 66, whatever the value
  was when the check began. An automatic check that reads false there never produces a
  notification.
\<close>

theorem execution_notifies_only_on_command_or_flag_read:
  assumes "interleaving (allRuns m inputs) t" and "notifications t \<noteq> []"
  shows "((\<exists>mi. ExecuteCommand ''workbench.extensions.installMissingDepenencies'' mi \<in> set inputs) \<or>
      getValue (atFlag m) ''extensions.autoInstallMissingDependencies'' \<or>
      (\<exists>before affectsConfiguration mc after.
         inputs = before @ DidChangeConfiguration affectsConfiguration mc # after \<and>
         Dispose \<notin> set before \<and>
         affectsConfiguration ''extensions.autoInstallMissingDependencies'' \<and>
         getValue (atFlag mc) ''extensions.autoInstallMissingDependencies'')) \<and>
     (\<forall>mc. \<not> getValue (atFlag mc) ''extensions.autoInstallMissingDependencies'' \<longrightarrow>
        notifications (fst (floating (checkAndInstallMissingDependencies_live mc))) = [])"
proof -
  have key: "autoInstallKey = ''extensions.autoInstallMissingDependencies''"
    by (simp add: autoInstallKey_def)
  have cmd: "installCommandId = ''workbench.extensions.installMissingDepenencies''"
    by (simp add: installCommandId_def)
  let ?first = "fst (floating (checkAndInstallMissingDependencies_live m))"
  have all: "allRuns m inputs = ?first # runs (fst (constructor m)) inputs"
    by (simp add: allRuns_def constructor_def)
  obtain r where r: "r \<in> set (allRuns m inputs)" "notifications r \<noteq> []"
    using interleaving_notification [OF assms] by blast
  then consider "notifications ?first \<noteq> []"
    | "r \<in> set (runs (fst (constructor m)) inputs)"
    unfolding all by auto
  then have source: "(\<exists>mi. ExecuteCommand installCommandId mi \<in> set inputs) \<or>
      getValue (atFlag m) autoInstallKey \<or>
      (\<exists>before affects mc after.
         inputs = before @ DidChangeConfiguration affects mc # after \<and>
         Dispose \<notin> set before \<and> affects autoInstallKey \<and>
         getValue (atFlag mc) autoInstallKey)"
  proof cases
    case 1
    then have "getValue (atFlag m) autoInstallKey"
      using checkAndInstallMissingDependencies_live_quiet [of m] by blast
    then show ?thesis by blast
  next
    case 2
    have registered: "commands (fst (constructor m)) = [installCommandId]"
      by (simp add: constructor_def)
    from runs_notification [OF registered 2 r(2)] show ?thesis by blast
  qed
  have quiet: "\<forall>mc. \<not> getValue (atFlag mc) autoInstallKey \<longrightarrow>
        notifications (fst (floating (checkAndInstallMissingDependencies_live mc))) = []"
    using checkAndInstallMissingDependencies_live_quiet by blast
  show ?thesis
    unfolding key [symmetric] cmd [symmetric] using source quiet by (intro conjI)
qed


theorem execution_notifies_only_on_command_or_flag_read_witness:
  "interleaving
     (allRuns (frozenCheck flagOffHost)
        [ExecuteCommand ''workbench.extensions.installMissingDepenencies''
           (frozenInstall nothingMissingHost)])
     [GetExtensions, GetExtensions, QueryLocal, QueryLocal,
      GetValue ''extensions.autoInstallMissingDependencies'',
      NotifyInfo ''There are no missing dependencies to install.''] \<and>
   notifications
     [GetExtensions, GetExtensions, QueryLocal, QueryLocal,
      GetValue ''extensions.autoInstallMissingDependencies'',
      NotifyInfo ''There are no missing dependencies to install.''] \<noteq> [] \<and>
   ExecuteCommand ''workbench.extensions.installMissingDepenencies''
       (frozenInstall nothingMissingHost)
     \<in> set [ExecuteCommand ''workbench.extensions.installMissingDepenencies''
               (frozenInstall nothingMissingHost)] \<and>
   \<not> getValue (atFlag (frozenCheck flagOffHost)) ''extensions.autoInstallMissingDependencies''"
proof -
  let ?inputs = "[ExecuteCommand ''workbench.extensions.installMissingDepenencies''
           (frozenInstall nothingMissingHost)]"
  let ?t = "[GetExtensions, GetExtensions, QueryLocal, QueryLocal,
      GetValue ''extensions.autoInstallMissingDependencies'',
      NotifyInfo ''There are no missing dependencies to install.'']"
  have all: "allRuns (frozenCheck flagOffHost) ?inputs =
      [[GetExtensions, QueryLocal, GetValue ''extensions.autoInstallMissingDependencies''],
       [GetExtensions, QueryLocal,
        NotifyInfo ''There are no missing dependencies to install.'']]"
    by (simp add: allRuns_def constructor_def checkAndInstallMissingDependencies_live_frozen
        installMissingDependencies_live_frozen flagOffHost_check nothingMissingHost_install
        floating_def installCommandId_def)
  have trace: "interleaving (allRuns (frozenCheck flagOffHost) ?inputs) ?t"
    unfolding all
    by (rule interleaving.next_event [where i = 0], simp, simp, simp,
        rule interleaving.next_event [where i = 1], simp, simp, simp,
        rule interleaving.next_event [where i = 0], simp, simp, simp,
        rule interleaving.next_event [where i = 1], simp, simp, simp,
        rule interleaving.next_event [where i = 0], simp, simp, simp,
        rule interleaving.next_event [where i = 1], simp, simp, simp,
        rule interleaving.finished, simp)
  have shown: "notifications ?t \<noteq> []"
    by (simp add: notifications_def)
  have member: "ExecuteCommand ''workbench.extensions.installMissingDepenencies''
       (frozenInstall nothingMissingHost) \<in> set ?inputs"
    by simp
  have off: "\<not> getValue (atFlag (frozenCheck flagOffHost))
      ''extensions.autoInstallMissingDependencies''"
    by (simp add: frozenCheck_def flagOffHost_def)
  have "notifications (fst (floating (checkAndInstallMissingDependencies_live
      (frozenCheck flagOffHost)))) = []"
    using execution_notifies_only_on_command_or_flag_read [OF trace shown, THEN conjunct2]
      off by blast
  then show ?thesis using trace shown member off by (intro conjI)
qed

end
